theory Spec2Isabelle
  imports Main
begin

section \<open>Strings\<close>

text \<open>
  A Python \<open>str\<close> is a sequence of Unicode code points; a code point is a natural number.
  ASCII literals are written through \<open>asc\<close>; the Korean literals of the script are listed
  by code point further down.
\<close>

type_synonym ustr = "nat list"

definition asc :: "string \<Rightarrow> ustr" where
  "asc s = map of_char s"

text \<open>
  \<open>str.lower\<close>, the class \<open>\d\<close> and the word characters behind \<open>\b\<close> follow the
  Unicode character database. On ASCII their meaning is fixed and is written out below; what the
  database says about code points from 128 on is a parameter \<open>U\<close> of the model, so every
  theorem holds whatever the database contains.
\<close>

record ucd =
  ext_digit :: "nat \<Rightarrow> bool"
  ext_word :: "nat \<Rightarrow> bool"
  ext_lower :: "ustr \<Rightarrow> ustr"

text \<open>\<open>str.isspace\<close>, which is also the class \<open>\s\<close> of \<open>re\<close> on \<open>str\<close> patterns.\<close>

definition is_space :: "nat \<Rightarrow> bool" where
  "is_space c = ((9 \<le> c \<and> c \<le> 13) \<or> (28 \<le> c \<and> c \<le> 32) \<or> c = 133 \<or> c = 160
     \<or> c = 5760 \<or> (8192 \<le> c \<and> c \<le> 8202) \<or> c = 8232 \<or> c = 8233 \<or> c = 8239
     \<or> c = 8287 \<or> c = 12288)"

text \<open>The characters at which \<open>str.splitlines\<close> ends a line.\<close>

definition is_linebreak :: "nat \<Rightarrow> bool" where
  "is_linebreak c = ((10 \<le> c \<and> c \<le> 13) \<or> (28 \<le> c \<and> c \<le> 30) \<or> c = 133
     \<or> c = 8232 \<or> c = 8233)"

fun in_ranges :: "(nat \<times> nat) list \<Rightarrow> nat \<Rightarrow> bool" where
  "in_ranges [] c = False"
| "in_ranges ((lo, hi) # rs) c = ((lo \<le> c \<and> c \<le> hi) \<or> in_ranges rs c)"

definition is_upper :: "nat \<Rightarrow> bool" where
  "is_upper c = (65 \<le> c \<and> c \<le> 90)"

definition is_lower :: "nat \<Rightarrow> bool" where
  "is_lower c = (97 \<le> c \<and> c \<le> 122)"

definition is_digit :: "ucd \<Rightarrow> nat \<Rightarrow> bool" where
  "is_digit U c = (if c < 128 then 48 \<le> c \<and> c \<le> 57 else ext_digit U c)"

definition is_word :: "ucd \<Rightarrow> nat \<Rightarrow> bool" where
  "is_word U c =
     (if c < 128 then in_ranges [(65, 90), (97, 122), (48, 57), (95, 95)] c else ext_word U c)"

definition lower :: "ucd \<Rightarrow> ustr \<Rightarrow> ustr" where
  "lower U s =
     (if list_all (\<lambda>c. c < 128) s then map (\<lambda>c. if is_upper c then c + 32 else c) s
      else ext_lower U s)"

definition startswith :: "ustr \<Rightarrow> ustr \<Rightarrow> bool" where
  "startswith s p = (take (length p) s = p)"

definition endswith :: "ustr \<Rightarrow> ustr \<Rightarrow> bool" where
  "endswith s p = startswith (rev s) (rev p)"

text \<open>\<open>p in s\<close> on strings.\<close>

fun contains :: "ustr \<Rightarrow> ustr \<Rightarrow> bool" where
  "contains [] p = (p = [])"
| "contains (c # cs) p = (startswith (c # cs) p \<or> contains cs p)"

definition lstrip :: "ustr \<Rightarrow> ustr" where
  "lstrip s = dropWhile is_space s"

definition rstrip :: "ustr \<Rightarrow> ustr" where
  "rstrip s = rev (dropWhile is_space (rev s))"

definition strip :: "ustr \<Rightarrow> ustr" where
  "strip s = rstrip (lstrip s)"

text \<open>\<open>sep.join(xs)\<close>.\<close>

fun join :: "ustr \<Rightarrow> ustr list \<Rightarrow> ustr" where
  "join sep [] = []"
| "join sep [x] = x"
| "join sep (x # y # ys) = x @ sep @ join sep (y # ys)"

text \<open>\<open>s.split(d)\<close> for a separator of one character: never empty.\<close>

fun split_on :: "nat \<Rightarrow> ustr \<Rightarrow> ustr list" where
  "split_on d [] = [[]]"
| "split_on d (c # cs) =
     (if c = d then [] # split_on d cs
      else (case split_on d cs of [] \<Rightarrow> [[c]] | w # ws \<Rightarrow> (c # w) # ws))"

text \<open>\<open>s.split()\<close>: the maximal runs of characters that are not white space.\<close>

fun split_ws_from :: "ustr \<Rightarrow> ustr \<Rightarrow> ustr list" where
  "split_ws_from cur [] = (if cur = [] then [] else [rev cur])"
| "split_ws_from cur (c # cs) =
     (if is_space c then (if cur = [] then split_ws_from [] cs else rev cur # split_ws_from [] cs)
      else split_ws_from (c # cur) cs)"

definition split_ws :: "ustr \<Rightarrow> ustr list" where
  "split_ws s = split_ws_from [] s"

text \<open>
  \<open>path.read_text(encoding="utf-8")\<close> opens the file in text mode, where Python translates
  every \<open>\r\n\<close> and every lone \<open>\r\<close> to \<open>\n\<close>.
\<close>

fun universal_newlines :: "ustr \<Rightarrow> ustr" where
  "universal_newlines [] = []"
| "universal_newlines [c] = [if c = 13 then 10 else c]"
| "universal_newlines (c # d # cs) =
     (if c = 13 \<and> d = 10 then 10 # universal_newlines cs
      else if c = 13 then 10 # universal_newlines (d # cs)
      else c # universal_newlines (d # cs))"

text \<open>\<open>text.splitlines(keepends=True)\<close>; \<open>cur\<close> is the line being read, reversed.\<close>

fun splitlines_from :: "ustr \<Rightarrow> ustr \<Rightarrow> ustr list" where
  "splitlines_from cur [] = (if cur = [] then [] else [rev cur])"
| "splitlines_from cur [c] = [rev (c # cur)]"
| "splitlines_from cur (c # d # cs) =
     (if c = 13 \<and> d = 10 then rev (d # c # cur) # splitlines_from [] cs
      else if is_linebreak c then rev (c # cur) # splitlines_from [] (d # cs)
      else splitlines_from (c # cur) (d # cs))"

definition splitlines :: "ustr \<Rightarrow> ustr list" where
  "splitlines s = splitlines_from [] s"

section \<open>Regular expressions\<close>

text \<open>
  The fragment of \<open>re\<close> that the script's patterns use, with Python's backtracking order:
  a matcher returns every way to match, most preferred first (an alternative tries its left
  branch first, a star is greedy), so the head of the list is the match Python reports.
  A state is the character before the cursor (for \<open>^\<close> and \<open>\b\<close>), the text from the
  cursor on, and the groups captured so far.
\<close>

datatype rx =
    Eps
  | Lit ustr
  | Range "(nat \<times> nat) list"
  | NRange "(nat \<times> nat) list"
  | Space
  | Digit
  | Dot
  | Bol
  | Eol
  | WordB
  | NotAhead rx
  | Seq rx rx
  | Alt rx rx
  | Star rx
  | Group nat rx

type_synonym caps = "(nat \<times> ustr) list"
type_synonym mres = "nat option \<times> ustr \<times> caps"

definition one_char :: "(nat \<Rightarrow> bool) \<Rightarrow> ustr \<Rightarrow> caps \<Rightarrow> mres list" where
  "one_char P s c = (case s of [] \<Rightarrow> [] | x # xs \<Rightarrow> if P x then [(Some x, xs, c)] else [])"

definition at_word_boundary :: "ucd \<Rightarrow> nat option \<Rightarrow> ustr \<Rightarrow> bool" where
  "at_word_boundary U p s =
     ((case p of None \<Rightarrow> False | Some a \<Rightarrow> is_word U a) \<noteq>
      (case s of [] \<Rightarrow> False | b # _ \<Rightarrow> is_word U b))"

text \<open>
  \<open>Eol\<close> is \<open>$\<close>: the end of the string, or just before a newline that ends it.
  An iteration of a star that consumes nothing is cut off; no starred expression of the script
  can match the empty string.
\<close>

function rmatch :: "ucd \<Rightarrow> rx \<Rightarrow> nat option \<Rightarrow> ustr \<Rightarrow> caps \<Rightarrow> mres list" where
  "rmatch U Eps p s c = [(p, s, c)]"
| "rmatch U (Lit t) p s c =
     (if startswith s t then [(if t = [] then p else Some (last t), drop (length t) s, c)] else [])"
| "rmatch U (Range rs) p s c = one_char (in_ranges rs) s c"
| "rmatch U (NRange rs) p s c = one_char (\<lambda>x. \<not> in_ranges rs x) s c"
| "rmatch U Space p s c = one_char is_space s c"
| "rmatch U Digit p s c = one_char (is_digit U) s c"
| "rmatch U Dot p s c = one_char (\<lambda>x. x \<noteq> 10) s c"
| "rmatch U Bol p s c = (if p = None then [(p, s, c)] else [])"
| "rmatch U Eol p s c = (if s = [] \<or> s = [10] then [(p, s, c)] else [])"
| "rmatch U WordB p s c = (if at_word_boundary U p s then [(p, s, c)] else [])"
| "rmatch U (NotAhead r) p s c = (if rmatch U r p s c = [] then [(p, s, c)] else [])"
| "rmatch U (Seq a b) p s c =
     concat (map (\<lambda>m. rmatch U b (fst m) (fst (snd m)) (snd (snd m))) (rmatch U a p s c))"
| "rmatch U (Alt a b) p s c = rmatch U a p s c @ rmatch U b p s c"
| "rmatch U (Star a) p s c =
     concat (map (\<lambda>m. if length (fst (snd m)) < length s
                        then rmatch U (Star a) (fst m) (fst (snd m)) (snd (snd m)) else [])
                 (rmatch U a p s c)) @ [(p, s, c)]"
| "rmatch U (Group n a) p s c =
     map (\<lambda>m. (fst m, fst (snd m), (n, take (length s - length (fst (snd m))) s) # snd (snd m)))
         (rmatch U a p s c)"
  by pat_completeness auto
termination
  by (relation "inv_image (less_than <*lex*> less_than) (\<lambda>(U, r, p, s, c). (size r, length s))")
     auto

text \<open>\<open>r+\<close>, \<open>r?\<close>, a sequence and an alternation of several expressions.\<close>

definition Many1 :: "rx \<Rightarrow> rx" where
  "Many1 r = Seq r (Star r)"

definition Maybe :: "rx \<Rightarrow> rx" where
  "Maybe r = Alt r Eps"

definition seqs :: "rx list \<Rightarrow> rx" where
  "seqs rs = foldr Seq rs Eps"

definition alts :: "rx list \<Rightarrow> rx" where
  "alts rs = foldr Alt (butlast rs) (last rs)"

text \<open>\<open>pattern.match(s)\<close>: the groups of the preferred match at the start of \<open>s\<close>.\<close>

definition re_match :: "ucd \<Rightarrow> rx \<Rightarrow> ustr \<Rightarrow> caps option" where
  "re_match U r s = (case rmatch U r None s [] of [] \<Rightarrow> None | m # _ \<Rightarrow> Some (snd (snd m)))"

text \<open>
  \<open>m.group(n)\<close>. Every group the script reads takes part in every match of its pattern, so
  the value is never Python's \<open>None\<close>.
\<close>

definition group :: "caps \<Rightarrow> nat \<Rightarrow> ustr" where
  "group m n = (case map_of m n of Some t \<Rightarrow> t | None \<Rightarrow> [])"

text \<open>
  \<open>re.findall(r, s)\<close> for a pattern without groups: the matches from left to right, the
  search resuming where a match ended. An empty match yields the empty string, which the only
  caller filters out.
\<close>

function findall :: "ucd \<Rightarrow> rx \<Rightarrow> nat option \<Rightarrow> ustr \<Rightarrow> ustr list" where
  "findall U r p [] = []"
| "findall U r p (x # xs) =
     (case rmatch U r p (x # xs) [] of
        [] \<Rightarrow> findall U r (Some x) xs
      | m # _ \<Rightarrow>
          if length (fst (snd m)) < length (x # xs)
          then take (length (x # xs) - length (fst (snd m))) (x # xs) # findall U r (fst m) (fst (snd m))
          else [] # findall U r (Some x) xs)"
  by pat_completeness auto
termination
  by (relation "measure (\<lambda>(U, r, p, s). length s)") auto

text \<open>\<open>re.sub(r, "", s)\<close>: the text outside the matches of \<open>r\<close>.\<close>

function sub_empty :: "ucd \<Rightarrow> rx \<Rightarrow> nat option \<Rightarrow> ustr \<Rightarrow> ustr" where
  "sub_empty U r p [] = []"
| "sub_empty U r p (x # xs) =
     (case rmatch U r p (x # xs) [] of
        [] \<Rightarrow> x # sub_empty U r (Some x) xs
      | m # _ \<Rightarrow>
          if length (fst (snd m)) < length (x # xs) then sub_empty U r (fst m) (fst (snd m))
          else x # sub_empty U r (Some x) xs)"
  by pat_completeness auto
termination
  by (relation "measure (\<lambda>(U, r, p, s). length s)") auto

section \<open>The patterns of the script\<close>

definition access :: rx where
  "access = Alt (Lit (asc ''public'')) (Lit (asc ''internal''))"

definition ident :: rx where
  "ident = Seq (Range [(65, 90), (97, 122), (95, 95)])
               (Star (Range [(65, 90), (97, 122), (48, 57), (95, 95)]))"

definition type_token :: rx where
  "type_token = Many1 (Range [(65, 90), (97, 122), (48, 57), (95, 95), (60, 60), (62, 62),
                              (44, 44), (91, 91), (93, 93), (46, 46), (63, 63)])"

definition kw :: "string \<Rightarrow> rx" where
  "kw w = Seq (Lit (asc w)) (Many1 Space)"

text \<open>
  \<^verbatim>\<open>^\s*(public|internal)\s+(?:static\s+)?(?:partial\s+)?(class|struct|interface|enum)\s+([A-Za-z_][A-Za-z0-9_]*)\b\<close>
\<close>

definition TYPE_PATTERN :: rx where
  "TYPE_PATTERN = seqs [Bol, Star Space, Group 1 access, Many1 Space,
     Maybe (kw ''static''), Maybe (kw ''partial''),
     Group 2 (alts [Lit (asc ''class''), Lit (asc ''struct''), Lit (asc ''interface''),
                    Lit (asc ''enum'')]),
     Many1 Space, Group 3 ident, WordB]"

text \<open>
  \<^verbatim>\<open>^\s*(public|internal)\s+(?:static\s+|virtual\s+|override\s+|sealed\s+|async\s+|new\s+)*([A-Za-z0-9_<>,\[\]\.\?]+)\s+([A-Za-z_][A-Za-z0-9_]*)\s*\(([^)]*)\)\s*(?:\{|=>|where|$)\<close>
\<close>

definition METHOD_PATTERN :: rx where
  "METHOD_PATTERN = seqs [Bol, Star Space, Group 1 access, Many1 Space,
     Star (alts [kw ''static'', kw ''virtual'', kw ''override'', kw ''sealed'', kw ''async'',
                 kw ''new'']),
     Group 2 type_token, Many1 Space, Group 3 ident, Star Space, Lit (asc ''(''),
     Group 4 (Star (NRange [(41, 41)])), Lit (asc '')''), Star Space,
     alts [Lit (asc ''{''), Lit (asc ''=>''), Lit (asc ''where''), Eol]]"

text \<open>
  \<^verbatim>\<open>^\s*(public|internal)\s+(?:static\s+)?([A-Za-z0-9_<>,\[\]\.\?]+)\s+([A-Za-z_][A-Za-z0-9_]*)\s*\{.*\<close>
\<close>

definition PROPERTY_PATTERN :: rx where
  "PROPERTY_PATTERN = seqs [Bol, Star Space, Group 1 access, Many1 Space, Maybe (kw ''static''),
     Group 2 type_token, Many1 Space, Group 3 ident, Star Space, Lit (asc ''{''), Star Dot]"

text \<open>\<^verbatim>\<open>[A-Z]?[a-z]+|[A-Z]+(?![a-z])|\d+\<close>, the pattern of \<open>split_identifier\<close>.\<close>

definition TOKEN_PATTERN :: rx where
  "TOKEN_PATTERN = alts [Seq (Maybe (Range [(65, 90)])) (Many1 (Range [(97, 122)])),
                         Seq (Many1 (Range [(65, 90)])) (NotAhead (Range [(97, 122)])),
                         Many1 Digit]"

text \<open>\<^verbatim>\<open>\[[^\]]*\]\<close>, an attribute inside a parameter list.\<close>

definition ATTR_PATTERN :: rx where
  "ATTR_PATTERN = seqs [Lit (asc ''[''), Star (NRange [(93, 93)]), Lit (asc '']'')]"

section \<open>The tokenizer\<close>

text \<open>
  \<^verbatim>\<open>parts = re.findall(r"[A-Z]?[a-z]+|[A-Z]+(?![a-z])|\d+", name)\<close>,
  \<^verbatim>\<open>return [p for p in parts if p]\<close>.
\<close>

definition split_identifier :: "ucd \<Rightarrow> ustr \<Rightarrow> ustr list" where
  "split_identifier U name = filter (\<lambda>p. p \<noteq> []) (findall U TOKEN_PATTERN None name)"

text \<open>The characters the tokenizer keeps: the letters A to Z and a to z, and the digits.\<close>

definition token_char :: "ucd \<Rightarrow> nat \<Rightarrow> bool" where
  "token_char U c = (is_upper c \<or> is_lower c \<or> is_digit U c)"

section \<open>The Korean texts of the script\<close>

text \<open>
  The literals of the script that are not ASCII, by code point; each name gives the meaning
  in English. A literal that ends an f-string after the rendered noun phrase is marked
  as a suffix.
\<close>

definition K_performs_action :: ustr where \<comment> \<open>performs an action\<close>
  "K_performs_action = [46041, 51089, 51012, 32, 49688, 54665, 54633, 45768, 45796, 46]"

definition K_returns_result :: ustr where \<comment> \<open>returns the result\<close>
  "K_returns_result = [44208, 44284, 47484, 32, 48152, 54872, 54633, 45768, 45796, 46]"

definition K_input_value :: ustr where \<comment> \<open>input value\<close>
  "K_input_value = [51077, 47141, 32, 44050]"

definition K_target_type :: ustr where \<comment> \<open>target type\<close>
  "K_target_type = [45824, 49345, 32, 54805, 49885]"

definition K_parameter :: ustr where \<comment> \<open>parameter\<close>
  "K_parameter = [47588, 44060, 32, 48320, 49688]"

definition K_culture_info :: ustr where \<comment> \<open>culture info\<close>
  "K_culture_info = [47928, 54868, 44428, 32, 51221, 48372]"

definition K_target :: ustr where \<comment> \<open>target\<close>
  "K_target = [45824, 49345]"

definition K_type :: ustr where \<comment> \<open>type\<close>
  "K_type = [54805, 49885]"

definition K_name :: ustr where \<comment> \<open>name\<close>
  "K_name = [51060, 47492]"

definition K_collection :: ustr where \<comment> \<open>collection\<close>
  "K_collection = [52972, 47113, 49496]"

definition K_items :: ustr where \<comment> \<open>items\<close>
  "K_items = [54637, 47785, 46308]"

definition K_string :: ustr where \<comment> \<open>string\<close>
  "K_string = [47928, 51088, 50676]"

definition K_color :: ustr where \<comment> \<open>colour\<close>
  "K_color = [49353]"

definition K_attribute :: ustr where \<comment> \<open>attribute\<close>
  "K_attribute = [53945, 49457]"

definition K_actual :: ustr where \<comment> \<open>actual value\<close>
  "K_actual = [49892, 51228, 44050]"

definition K_expected :: ustr where \<comment> \<open>expected value\<close>
  "K_expected = [44592, 45824, 44050]"

definition K_operator :: ustr where \<comment> \<open>operator\<close>
  "K_operator = [50672, 49328, 51088]"

definition K_whether :: ustr where \<comment> \<open>whether\<close>
  "K_whether = [50668, 48512]"

definition K_true_if_condition :: ustr where \<comment> \<open>returns true if the condition holds\<close>
  "K_true_if_condition = [51312, 44148, 51012, 32, 47564, 51313, 54616, 47732, 32, 116, 114, 117,
     101, 47484, 32, 48152, 54872, 54633, 45768, 45796, 46]"

definition K_convert :: ustr where \<comment> \<open>convert\<close>
  "K_convert = [48320, 54872]"

definition K_returns_conversion :: ustr where \<comment> \<open>returns the conversion result\<close>
  "K_returns_conversion = [48320, 54872, 32, 44208, 44284, 47484, 32, 48152, 54872, 54633, 45768,
     45796, 46]"

definition K_defines_interface :: ustr where \<comment> \<open>defines an interface\<close>
  "K_defines_interface = [51064, 53552, 54168, 51060, 49828, 47484, 32, 51221, 51032, 54633,
     45768, 45796, 46]"

definition K_defines_enum :: ustr where \<comment> \<open>defines an enumeration\<close>
  "K_defines_enum = [50676, 44144, 54805, 51012, 32, 51221, 51032, 54633, 45768, 45796, 46]"

definition K_provides_converter :: ustr where \<comment> \<open>provides a value converter\<close>
  "K_provides_converter = [44050, 32, 48320, 54872, 44592, 47484, 32, 51228, 44277, 54633, 45768,
     45796, 46]"

definition K_provides_utility :: ustr where \<comment> \<open>provides utility methods\<close>
  "K_provides_utility = [50976, 54008, 47532, 54000, 32, 47700, 49436, 46300, 47484, 32, 51228,
     44277, 54633, 45768, 45796, 46]"

definition K_defines_attribute :: ustr where \<comment> \<open>defines a custom attribute\<close>
  "K_defines_attribute = [49324, 50857, 51088, 32, 51648, 51221, 32, 53945, 49457, 51012, 32,
     51221, 51032, 54633, 45768, 45796, 46]"

definition K_provides_extension :: ustr where \<comment> \<open>provides extension methods\<close>
  "K_provides_extension = [54869, 51109, 32, 47700, 49436, 46300, 47484, 32, 51228, 44277, 54633,
     45768, 45796, 46]"

definition K_provides :: ustr where \<comment> \<open>(object suffix) provides\<close>
  "K_provides = [47484, 40, 51012, 41, 32, 51228, 44277, 54633, 45768, 45796, 46]"

definition K_gets_value :: ustr where \<comment> \<open>gets the value\<close>
  "K_gets_value = [44050, 51012, 32, 44032, 51256, 50741, 45768, 45796, 46]"

definition K_sets_value :: ustr where \<comment> \<open>sets the value\<close>
  "K_sets_value = [44050, 51012, 32, 49444, 51221, 54633, 45768, 45796, 46]"

definition K_adds :: ustr where \<comment> \<open>(object suffix) adds\<close>
  "K_adds = [47484, 40, 51012, 41, 32, 52628, 44032, 54633, 45768, 45796, 46]"

definition K_removes :: ustr where \<comment> \<open>(object suffix) removes\<close>
  "K_removes = [47484, 40, 51012, 41, 32, 51228, 44144, 54633, 45768, 45796, 46]"

definition K_updates :: ustr where \<comment> \<open>(object suffix) updates\<close>
  "K_updates = [47484, 40, 51012, 41, 32, 50629, 45936, 51060, 53944, 54633, 45768, 45796, 46]"

definition K_creates :: ustr where \<comment> \<open>(object suffix) creates\<close>
  "K_creates = [47484, 40, 51012, 41, 32, 49373, 49457, 54633, 45768, 45796, 46]"

definition K_deletes :: ustr where \<comment> \<open>(object suffix) deletes\<close>
  "K_deletes = [47484, 40, 51012, 41, 32, 49325, 51228, 54633, 45768, 45796, 46]"

definition K_finds :: ustr where \<comment> \<open>(object suffix) finds\<close>
  "K_finds = [47484, 40, 51012, 41, 32, 52286, 49845, 45768, 45796, 46]"

definition K_loads :: ustr where \<comment> \<open>(object suffix) loads\<close>
  "K_loads = [47484, 40, 51012, 41, 32, 47196, 46300, 54633, 45768, 45796, 46]"

definition K_saves :: ustr where \<comment> \<open>(object suffix) saves\<close>
  "K_saves = [47484, 40, 51012, 41, 32, 51200, 51109, 54633, 45768, 45796, 46]"

definition K_parses :: ustr where \<comment> \<open>(object suffix) parses\<close>
  "K_parses = [47484, 40, 51012, 41, 32, 44396, 47928, 32, 48516, 49437, 54633, 45768, 45796, 46]"

definition K_converts_value :: ustr where \<comment> \<open>converts the value\<close>
  "K_converts_value = [44050, 51012, 32, 48320, 54872, 54633, 45768, 45796, 46]"

definition K_converts_back :: ustr where \<comment> \<open>converts the target value back to the source\<close>
  "K_converts_back = [45824, 49345, 32, 44050, 51012, 32, 50896, 48376, 51004, 47196, 32, 48320,
     54872, 54633, 45768, 45796, 46]"

definition K_converts_to :: ustr where \<comment> \<open>(suffix) converts to\<close>
  "K_converts_to = [47196, 32, 48320, 54872, 54633, 45768, 45796, 46]"

definition K_tries :: ustr where \<comment> \<open>(object suffix) tries, and returns whether it succeeded\<close>
  "K_tries = [47484, 40, 51012, 41, 32, 49884, 46020, 54616, 44256, 44, 32, 49457, 44277, 32,
     50668, 48512, 47484, 32, 48152, 54872, 54633, 45768, 45796, 46]"

definition K_checks_is :: ustr where \<comment> \<open>(suffix) checks whether it is\<close>
  "K_checks_is = [51064, 51648, 32, 50668, 48512, 47484, 32, 54869, 51064, 54633, 45768, 45796,
     46]"

definition K_checks_has :: ustr where \<comment> \<open>(object suffix) checks whether it has\<close>
  "K_checks_has = [47484, 40, 51012, 41, 32, 48372, 50976, 54616, 45716, 51648, 32, 50668, 48512,
     47484, 32, 54869, 51064, 54633, 45768, 45796, 46]"

definition K_checks_contains :: ustr where \<comment> \<open>checks whether it contains\<close>
  "K_checks_contains = [54252, 54632, 32, 50668, 48512, 47484, 32, 54869, 51064, 54633, 45768,
     45796, 46]"

definition K_checks_starts :: ustr where \<comment> \<open>checks whether it starts\<close>
  "K_checks_starts = [49884, 51089, 32, 50668, 48512, 47484, 32, 54869, 51064, 54633, 45768,
     45796, 46]"

definition K_checks_ends :: ustr where \<comment> \<open>checks whether it ends\<close>
  "K_checks_ends = [45149, 45208, 45716, 51648, 32, 50668, 48512, 47484, 32, 54869, 51064, 54633,
     45768, 45796, 46]"

definition K_gets_or_sets :: ustr where \<comment> \<open>(object suffix) gets or sets\<close>
  "K_gets_or_sets = [47484, 40, 51012, 41, 32, 44032, 51256, 50724, 44144, 45208, 32, 49444,
     51221, 54633, 45768, 45796, 46]"

definition K_success :: ustr where \<comment> \<open>success\<close>
  "K_success = [49457, 44277]"

definition K_true_on_success :: ustr where \<comment> \<open>returns true on success\<close>
  "K_true_on_success = [49457, 44277, 54616, 47732, 32, 116, 114, 117, 101, 47484, 32, 48152,
     54872, 54633, 45768, 45796, 46]"

definition K_gets_word :: ustr where \<comment> \<open>gets (verb only)\<close>
  "K_gets_word = [44032, 51256, 50741, 45768, 45796]"

definition K_finds_word :: ustr where \<comment> \<open>finds (verb only)\<close>
  "K_finds_word = [52286, 49845, 45768, 45796]"

definition K_creates_word :: ustr where \<comment> \<open>creates (verb only)\<close>
  "K_creates_word = [49373, 49457, 54633, 45768, 45796]"

definition K_gets :: ustr where \<comment> \<open>(object suffix) gets\<close>
  "K_gets = [47484, 40, 51012, 41, 32, 44032, 51256, 50741, 45768, 45796, 46]"

definition K_sets :: ustr where \<comment> \<open>(object suffix) sets\<close>
  "K_sets = [47484, 40, 51012, 41, 32, 49444, 51221, 54633, 45768, 45796, 46]"

definition OV_AddRange_summary :: ustr where \<comment> \<open>override text\<close>
  "OV_AddRange_summary = [51648, 51221, 54620, 32, 54637, 47785, 46308, 51012, 32, 52972, 47113,
     49496, 50640, 32, 49692, 52264, 51201, 51004, 47196, 32, 52628, 44032, 54633, 45768, 45796,
     46]"

definition OV_GetColorName_summary :: ustr where \<comment> \<open>override text\<close>
  "OV_GetColorName_summary = [51077, 47141, 32, 49353, 49345, 44284, 32, 51068, 52824, 54616,
     45716, 32, 48120, 47532, 32, 51221, 51032, 46108, 32, 49353, 49345, 32, 51060, 47492, 51012,
     32, 48152, 54872, 54633, 45768, 45796, 46, 32, 50630, 51004, 47732, 32, 49353, 49345, 32,
     47928, 51088, 50676, 51012, 32, 48152, 54872, 54633, 45768, 45796, 46]"

definition OV_GetColorName_returns :: ustr where \<comment> \<open>override text\<close>
  "OV_GetColorName_returns = [49353, 49345, 32, 51060, 47492, 32, 46608, 45716, 32, 49353, 49345,
     32, 47928, 51088, 50676]"

definition OV_ToColor_summary :: ustr where \<comment> \<open>override text\<close>
  "OV_ToColor_summary = [47928, 51088, 50676, 32, 54364, 54788, 51012, 32, 67, 111, 108, 111,
     114, 47196, 32, 48320, 54872, 54633, 45768, 45796, 46, 32, 49892, 54056, 32, 49884, 32,
     44592, 48376, 32, 49353, 51012, 32, 48152, 54872, 54633, 45768, 45796, 46]"

definition OV_ToColor_returns :: ustr where \<comment> \<open>override text\<close>
  "OV_ToColor_returns = [48320, 54872, 46108, 32, 49353, 49345, 32, 44050]"

definition OV_TryConvertColor_summary :: ustr where \<comment> \<open>override text\<close>
  "OV_TryConvertColor_summary = [47928, 51088, 50676, 51012, 32, 67, 111, 108, 111, 114, 47196,
     32, 48320, 54872, 51012, 32, 49884, 46020, 54633, 45768, 45796, 46]"

definition OV_TryConvertColor_returns :: ustr where \<comment> \<open>override text\<close>
  "OV_TryConvertColor_returns = [49457, 44277, 54616, 47732, 32, 116, 114, 117, 101, 44, 32,
     49892, 54056, 54616, 47732, 32, 102, 97, 108, 115, 101]"

definition OV_ToList_summary :: ustr where \<comment> \<open>override text\<close>
  "OV_ToList_summary = [52972, 47113, 49496, 51032, 32, 54637, 47785, 51012, 32, 47785, 47197,
     40, 76, 105, 115, 116, 41, 51004, 47196, 32, 48320, 54872, 54633, 45768, 45796, 46]"

definition K_defines_interface_of :: ustr where \<comment> \<open>(suffix, after a space) defines the interface\<close>
  "K_defines_interface_of = [32, 51064, 53552, 54168, 51060, 49828, 47484, 32, 51221, 51032,
     54633, 45768, 45796, 46]"

definition OV_AddRange_collection :: ustr where \<comment> \<open>override text\<close>
  "OV_AddRange_collection = [45824, 49345, 32, 52972, 47113, 49496]"

definition OV_AddRange_items :: ustr where \<comment> \<open>override text\<close>
  "OV_AddRange_items = [52628, 44032, 54624, 32, 54637, 47785, 32, 49884, 53248, 49828]"

definition OV_GetColorName_color :: ustr where \<comment> \<open>override text\<close>
  "OV_GetColorName_color = [49353, 49345, 32, 44050]"

definition OV_color_string :: ustr where \<comment> \<open>override text\<close>
  "OV_color_string = [49353, 49345, 32, 47928, 51088, 50676]"

definition OV_ToColor_defaultColor :: ustr where \<comment> \<open>override text\<close>
  "OV_ToColor_defaultColor = [54028, 49905, 32, 49892, 54056, 32, 49884, 32, 48152, 54872, 54624,
     32, 44592, 48376, 32, 49353]"

definition OV_TryConvertColor_color :: ustr where \<comment> \<open>override text\<close>
  "OV_TryConvertColor_color = [48320, 54872, 32, 49457, 44277, 32, 49884, 32, 44208, 44284, 32,
     49353, 49345]"

definition PLACEHOLDER :: ustr where \<comment> \<open>the placeholder marker: three slashes, a space, and the word for description\<close>
  "PLACEHOLDER = [47, 47, 47, 32, 49444, 47749]"

definition K_back_converts_to :: ustr where \<comment> \<open>Back, then the suffix converts to\<close>
  "K_back_converts_to = [66, 97, 99, 107, 47196, 32, 48320, 54872, 54633, 45768, 45796, 46]"

section \<open>The phrase renderer\<close>

text \<open>\<^verbatim>\<open>return " ".join(tokens)\<close>\<close>

definition to_korean_noun :: "ustr list \<Rightarrow> ustr" where
  "to_korean_noun tokens = join (asc '' '') tokens"

text \<open>\<^verbatim>\<open>return mapping.get(name.lower(), "...")\<close> with the script's table.\<close>

definition param_mapping :: "(ustr \<times> ustr) list" where
  "param_mapping =
     [(asc ''value'', K_input_value), (asc ''targettype'', K_target_type),
      (asc ''param'', K_parameter), (asc ''parameter'', K_parameter),
      (asc ''culture'', K_culture_info), (asc ''target'', K_target), (asc ''type'', K_type),
      (asc ''name'', K_name), (asc ''collection'', K_collection), (asc ''items'', K_items),
      (asc ''str'', K_string), (asc ''color'', K_color), (asc ''attr'', K_attribute),
      (asc ''actual'', K_actual), (asc ''expect'', K_expected), (asc ''op'', K_operator),
      (asc ''obj'', K_target)]"

definition param_korean_desc :: "ucd \<Rightarrow> ustr \<Rightarrow> ustr" where
  "param_korean_desc U name =
     (case map_of param_mapping (lower U name) of Some d \<Rightarrow> d | None \<Rightarrow> K_parameter)"

definition return_korean_desc_by_name :: "ustr \<Rightarrow> ustr" where
  "return_korean_desc_by_name summary_text =
     (if contains summary_text K_whether then
        (if contains summary_text K_success then K_true_on_success else K_true_if_condition)
      else if contains summary_text K_convert then K_returns_conversion
      else if contains summary_text K_gets_word \<or> contains summary_text K_finds_word
              \<or> contains summary_text K_creates_word then K_returns_result
      else K_returns_result)"

section \<open>The heuristic classifier\<close>

text \<open>
  \<open>guess_summary_for_member(name, kind, file_text, return_type, decl_kind)\<close>: the chain of
  tests in the order of the script; \<open>tokens[1:]\<close> is \<open>drop 1 tokens\<close>. The script never
  reads \<open>return_type\<close>.
\<close>

definition converter_context :: "ustr \<Rightarrow> bool" where
  "converter_context file_text =
     (contains file_text (asc ''IValueConverter'') \<or> contains file_text (asc ''System.Windows.Data''))"

definition guess_summary_for_member ::
  "ucd \<Rightarrow> ustr \<Rightarrow> ustr \<Rightarrow> ustr \<Rightarrow> ustr option \<Rightarrow> ustr option \<Rightarrow> ustr" where
  "guess_summary_for_member U name kind file_text return_type decl_kind =
     (let tokens = split_identifier U name;
          lower_name = lower U name;
          starts = (\<lambda>p. startswith lower_name (asc p));
          rest = to_korean_noun (drop 1 tokens)
      in
      if kind = asc ''type'' then
        (if decl_kind = Some (asc ''interface'') then
           (if startswith name (asc ''I'') \<and> length tokens > 1 then rest @ K_defines_interface_of
            else K_defines_interface)
         else if decl_kind = Some (asc ''enum'') then K_defines_enum
         else if contains file_text (asc ''Converters'') \<or> contains file_text (asc ''IValueConverter'')
           then K_provides_converter
         else if contains file_text (asc ''Helpers'') then K_provides_utility
         else if endswith name (asc ''Attribute'') then K_defines_attribute
         else if endswith name (asc ''Extensions'') \<or> endswith name (asc ''Ext'')
           then K_provides_extension
         else to_korean_noun tokens @ K_provides)
      else if starts ''get'' then (if length tokens > 1 then rest @ K_gets else K_gets_value)
      else if starts ''set'' then (if length tokens > 1 then rest @ K_sets else K_sets_value)
      else if starts ''add'' then rest @ K_adds
      else if starts ''remove'' then rest @ K_removes
      else if starts ''update'' then rest @ K_updates
      else if starts ''create'' \<or> starts ''build'' then rest @ K_creates
      else if starts ''delete'' then rest @ K_deletes
      else if starts ''find'' \<or> starts ''search'' then rest @ K_finds
      else if starts ''load'' then rest @ K_loads
      else if starts ''save'' then rest @ K_saves
      else if starts ''parse'' then rest @ K_parses
      else if (name = asc ''Convert'' \<or> name = asc ''ConvertBack'') \<and> converter_context file_text
        then (if name = asc ''Convert'' then K_converts_value else K_converts_back)
      else if starts ''to'' \<or> starts ''convert'' then rest @ K_converts_to
      else if starts ''try'' then rest @ K_tries
      else if starts ''is'' then rest @ K_checks_is
      else if starts ''has'' then rest @ K_checks_has
      else if (name = asc ''Convert'' \<or> name = asc ''ConvertBack'') \<and> converter_context file_text
        then (if name = asc ''Convert'' then K_converts_value else K_converts_back)
      else if name = asc ''Contains'' then K_checks_contains
      else if name = asc ''StartsWith'' then K_checks_starts
      else if name = asc ''EndsWith'' then K_checks_ends
      else if kind = asc ''property'' then to_korean_noun tokens @ K_gets_or_sets
      else K_performs_action)"

section \<open>The override table\<close>

text \<open>
  An entry of \<open>DOC_OVERRIDES\<close>: a dictionary with the keys \<open>summary\<close>, \<open>params\<close> and
  \<open>returns\<close>, each of which may be missing. The table keeps the order of the script, which
  is the order Python iterates a dictionary in.
\<close>

record override =
  ov_summary :: "ustr option"
  ov_params :: "(ustr \<times> ustr) list option"
  ov_returns :: "ustr option"

type_synonym override_table = "(ustr \<times> (ustr \<times> (ustr \<times> override) list) list) list"

definition DOC_OVERRIDES :: override_table where
  "DOC_OVERRIDES =
     [(asc ''Helpers/CollectionHelper.cs'',
        [(asc ''method'',
           [(asc ''AddRange'',
              \<lparr>ov_summary = Some OV_AddRange_summary,
               ov_params = Some [(asc ''collection'', OV_AddRange_collection),
                                 (asc ''items'', OV_AddRange_items)],
               ov_returns = None\<rparr>)])]),
      (asc ''Helpers/ColorHelper.cs'',
        [(asc ''method'',
           [(asc ''GetColorName'',
              \<lparr>ov_summary = Some OV_GetColorName_summary,
               ov_params = Some [(asc ''color'', OV_GetColorName_color)],
               ov_returns = Some OV_GetColorName_returns\<rparr>),
            (asc ''ToColor'',
              \<lparr>ov_summary = Some OV_ToColor_summary,
               ov_params = Some [(asc ''str'', OV_color_string),
                                 (asc ''defaultColor'', OV_ToColor_defaultColor)],
               ov_returns = Some OV_ToColor_returns\<rparr>),
            (asc ''TryConvertColor'',
              \<lparr>ov_summary = Some OV_TryConvertColor_summary,
               ov_params = Some [(asc ''str'', OV_color_string),
                                 (asc ''color'', OV_TryConvertColor_color)],
               ov_returns = Some OV_TryConvertColor_returns\<rparr>)])]),
      (asc ''Helpers/DataTableHelper.cs'',
        [(asc ''method'',
           [(asc ''ToList'',
              \<lparr>ov_summary = Some OV_ToList_summary, ov_params = None, ov_returns = None\<rparr>)])])]"

text \<open>
  A \<open>Path\<close> is modelled by its \<open>parts\<close>: the root (\<open>/\<close>) first if the path is absolute,
  then the names. \<open>as_posix\<close> and \<open>name\<close> are pathlib's, on a POSIX system.
\<close>

type_synonym path = "ustr list"

definition as_posix :: "path \<Rightarrow> ustr" where
  "as_posix ps =
     (case ps of [] \<Rightarrow> asc ''.''
      | r # rest \<Rightarrow> if startswith r (asc ''/'') then r @ join (asc ''/'') rest
                    else join (asc ''/'') ps)"

definition path_name :: "path \<Rightarrow> ustr" where
  "path_name ps =
     (case ps of [] \<Rightarrow> []
      | r # rest \<Rightarrow> if rest = [] \<and> startswith r (asc ''/'') then [] else last ps)"

text \<open>\<open>table[key][kind][member]\<close> when all three keys are present.\<close>

definition lookup3 :: "override_table \<Rightarrow> ustr \<Rightarrow> ustr \<Rightarrow> ustr \<Rightarrow> override option" where
  "lookup3 table key kind member =
     (case map_of table key of None \<Rightarrow> None
      | Some spec \<Rightarrow> (case map_of spec kind of None \<Rightarrow> None | Some ms \<Rightarrow> map_of ms member))"

text \<open>
  \<^verbatim>\<open>for key, spec in DOC_OVERRIDES.items():\<close>
  \<^verbatim>\<open>    if key.endswith(fname) and kind in spec and member_name in spec[kind]:\<close>
\<close>

fun suffix_lookup :: "override_table \<Rightarrow> ustr \<Rightarrow> ustr \<Rightarrow> ustr \<Rightarrow> override option" where
  "suffix_lookup [] fname kind member = None"
| "suffix_lookup ((key, spec) # table) fname kind member =
     (if endswith key fname then
        (case map_of spec kind of
           None \<Rightarrow> suffix_lookup table fname kind member
         | Some ms \<Rightarrow>
             (case map_of ms member of
                None \<Rightarrow> suffix_lookup table fname kind member
              | Some ov \<Rightarrow> Some ov))
      else suffix_lookup table fname kind member)"

definition match_override :: "path \<Rightarrow> ustr \<Rightarrow> ustr \<Rightarrow> override option" where
  "match_override path member_name kind =
     (let segs = split_on 47 (as_posix path);
          rel = (if length path \<ge> 2 then join (asc ''/'') (drop (length segs - 2) segs)
                 else as_posix path);
          fname = path_name path
      in case lookup3 DOC_OVERRIDES rel kind member_name of
           Some ov \<Rightarrow> Some ov
         | None \<Rightarrow>
             (case lookup3 DOC_OVERRIDES fname kind member_name of
                Some ov \<Rightarrow> Some ov
              | None \<Rightarrow> suffix_lookup DOC_OVERRIDES fname kind member_name))"

section \<open>The comment block locator\<close>

text \<open>
  The inner loop of \<open>find_preceding_xml_block\<close>:
  \<^verbatim>\<open>while start - 1 >= 0 and lines[start - 1].lstrip().startswith("///"): start -= 1\<close>
\<close>

fun block_start :: "ustr list \<Rightarrow> nat \<Rightarrow> nat" where
  "block_start lines 0 = 0"
| "block_start lines (Suc k) =
     (if startswith (lstrip (lines ! k)) (asc ''///'') then block_start lines k else Suc k)"

text \<open>
  The outer loop, \<^verbatim>\<open>while j >= 0\<close>; the argument is \<open>j + 1\<close>, so that \<open>0\<close> stands for
  \<open>j = -1\<close>.
\<close>

fun scan_up :: "ustr list \<Rightarrow> nat \<Rightarrow> (nat \<times> nat) option" where
  "scan_up lines 0 = None"
| "scan_up lines (Suc j) =
     (let st = lstrip (lines ! j) in
      if startswith st (asc ''///'') then Some (block_start lines j, j)
      else if strip st = [] \<or> (startswith st (asc ''['') \<and> \<not> startswith st (asc ''///''))
        then scan_up lines j
      else None)"

text \<open>
  \<open>find_preceding_xml_block(lines, idx)\<close>, with \<open>j = idx - 1\<close> at the start. The script
  calls it with \<open>idx < len(lines)\<close> only, so no read is out of range.
\<close>

definition find_preceding_xml_block :: "ustr list \<Rightarrow> nat \<Rightarrow> (nat \<times> nat) option" where
  "find_preceding_xml_block lines idx = scan_up lines idx"

section \<open>The block builder\<close>

definition build_summary_block :: "ustr \<Rightarrow> ustr list" where
  "build_summary_block summary_text =
     [asc ''/// <summary>'' @ [10], asc ''/// '' @ summary_text @ [10],
      asc ''/// </summary>'' @ [10]]"

text \<open>
  The name of one parameter, or \<open>None\<close> where the loop of \<open>build_method_block\<close> says
  \<open>continue\<close>: attributes removed, the text before the first \<open>=\<close>, the modifiers dropped,
  the last word left.
\<close>

definition param_name :: "ucd \<Rightarrow> ustr \<Rightarrow> ustr option" where
  "param_name U p =
     (if p = [] then None
      else
        let raw = strip (sub_empty U ATTR_PATTERN None p);
            left = strip (hd (split_on 61 raw));
            parts = filter (\<lambda>part. part \<notin> set [asc ''ref'', asc ''out'', asc ''in'', asc ''params'',
                                                    asc ''this'']) (split_ws left)
        in if parts = [] then None else Some (strip (last parts)))"

text \<open>\<^verbatim>\<open>block.append(f"/// <param name=\"{last}\">{desc}</param>\n")\<close>\<close>

definition param_line :: "ucd \<Rightarrow> (ustr \<times> ustr) list option \<Rightarrow> ustr \<Rightarrow> ustr" where
  "param_line U param_overrides last_part =
     (let desc = (case param_overrides of
                    None \<Rightarrow> param_korean_desc U last_part
                  | Some d \<Rightarrow> (case map_of d last_part of
                                Some v \<Rightarrow> v
                              | None \<Rightarrow> param_korean_desc U last_part))
      in asc ''/// <param name='' @ [34] @ last_part @ [34] @ asc ''>'' @ desc @ asc ''</param>''
           @ [10])"

text \<open>\<open>a or b\<close> on optional strings: \<open>None\<close> and the empty string are false.\<close>

definition py_or :: "ustr option \<Rightarrow> ustr option \<Rightarrow> ustr option" where
  "py_or a b = (case a of Some s \<Rightarrow> if s \<noteq> [] then a else b | None \<Rightarrow> b)"

definition build_method_block ::
  "ucd \<Rightarrow> ustr \<Rightarrow> ustr \<Rightarrow> ustr \<Rightarrow> ustr option \<Rightarrow> (ustr \<times> ustr) list option \<Rightarrow> ustr option
     \<Rightarrow> ustr list" where
  "build_method_block U summary_text return_type params return_hint param_overrides returns_override =
     (let ps = (if strip params \<noteq> [] then map strip (split_on 44 params) else []);
          param_lines = concat (map (\<lambda>p. case param_name U p of
                                             None \<Rightarrow> []
                                           | Some l \<Rightarrow> [param_line U param_overrides l]) ps);
          ret_desc = (case py_or (py_or returns_override return_hint)
                                 (Some (return_korean_desc_by_name summary_text)) of
                        Some d \<Rightarrow> d | None \<Rightarrow> []);
          returns_lines = (if return_type \<noteq> [] \<and> return_type \<noteq> asc ''void''
                           then [asc ''/// <returns>'' @ ret_desc @ asc ''</returns>'' @ [10]]
                           else [])
      in build_summary_block summary_text @ param_lines @ returns_lines)"

section \<open>The reconciliation driver\<close>

text \<open>
  The state of the loop of \<open>process_file\<close>: the buffer \<open>lines\<close>, the cursor \<open>i\<close>,
  \<open>current_type\<close> and \<open>changed\<close>.
\<close>

type_synonym pstate = "ustr list \<times> nat \<times> ustr option \<times> bool"

text \<open>\<^verbatim>\<open>"<summary>" in block_text and "/// ..." in block_text\<close>\<close>

definition is_placeholder :: "ustr \<Rightarrow> bool" where
  "is_placeholder block_text =
     (contains block_text (asc ''<summary>'') \<and> contains block_text PLACEHOLDER)"

text \<open>\<^verbatim>\<open>"".join(lines[start:end+1])\<close>\<close>

definition block_text_of :: "ustr list \<Rightarrow> nat \<Rightarrow> nat \<Rightarrow> ustr" where
  "block_text_of lines start end = concat (take (end + 1 - start) (drop start lines))"

text \<open>
  The three statements of a replacement, which the script repeats in each branch:
  \<^verbatim>\<open>del lines[start:end+1]\<close>,
  \<^verbatim>\<open>lines[i - (end - start + 1):i - (end - start + 1)] = block\<close>,
  \<^verbatim>\<open>i = i - (end - start + 1) + len(block)\<close>.
  The result is the new buffer and the new cursor.
\<close>

definition splice_replace :: "ustr list \<Rightarrow> nat \<Rightarrow> nat \<Rightarrow> nat \<Rightarrow> ustr list \<Rightarrow> ustr list \<times> nat" where
  "splice_replace lines i start end block =
     (let lines1 = take start lines @ drop (end + 1) lines;
          k = i - (end - start + 1);
          lines2 = take k lines1 @ block @ drop k lines1
      in (lines2, k + length block))"

text \<open>
  The two statements of an insertion: \<^verbatim>\<open>lines[i:i] = block\<close>, \<^verbatim>\<open>i += len(block)\<close>.
\<close>

definition splice_insert :: "ustr list \<Rightarrow> nat \<Rightarrow> ustr list \<Rightarrow> ustr list \<times> nat" where
  "splice_insert lines i block = (take i lines @ block @ drop i lines, i + length block)"

text \<open>
  The block that the branch of \<open>TYPE_PATTERN\<close> builds, in both places where it builds one:
  \<^verbatim>\<open>summary = guess_summary_for_member(current_type, "type", text, decl_kind=m_type.group(2))\<close>,
  \<^verbatim>\<open>block = build_summary_block(summary)\<close>.
\<close>

definition type_block :: "ucd \<Rightarrow> ustr \<Rightarrow> caps \<Rightarrow> ustr list" where
  "type_block U text m_type =
     build_summary_block
       (guess_summary_for_member U (group m_type 3) (asc ''type'') text None
          (Some (group m_type 2)))"

text \<open>The branch of a line that matches \<open>TYPE_PATTERN\<close>.\<close>

definition on_type :: "ucd \<Rightarrow> ustr \<Rightarrow> caps \<Rightarrow> pstate \<Rightarrow> pstate" where
  "on_type U text m_type st =
     (case st of (lines, i, current_type0, changed) \<Rightarrow>
        let current_type = group m_type 3;
            block_pos = find_preceding_xml_block lines i;
            block = type_block U text m_type
        in (case block_pos of
              Some (start, end) \<Rightarrow>
                if is_placeholder (block_text_of lines start end) \<or> group m_type 2 = asc ''interface''
                then (case splice_replace lines i start end block of
                        (lines', i') \<Rightarrow> (lines', i' + 1, Some current_type, True))
                else (lines, i + 1, Some current_type, changed)
            | None \<Rightarrow>
                (case splice_insert lines i block of
                   (lines', i') \<Rightarrow> (lines', i' + 1, Some current_type, True))))"

text \<open>\<open>if override:\<close> on the result of \<open>match_override\<close>: a dictionary is true when it has a key.\<close>

definition override_given :: "override option \<Rightarrow> bool" where
  "override_given ov =
     (case ov of None \<Rightarrow> False
      | Some v \<Rightarrow> ov_summary v \<noteq> None \<or> ov_params v \<noteq> None \<or> ov_returns v \<noteq> None)"

text \<open>The return hint of the method branch.\<close>

definition return_hint_of :: "ustr \<Rightarrow> ustr option" where
  "return_hint_of name =
     (if startswith name (asc ''Try'') \<or> name = asc ''Contains'' \<or> name = asc ''StartsWith''
         \<or> name = asc ''EndsWith'' \<or> startswith name (asc ''Is'') \<or> startswith name (asc ''Has'')
      then Some K_true_if_condition else None)"

text \<open>
  The block that the branch of \<open>METHOD_PATTERN\<close> builds, in both places where it builds one:
  the values that the branch computes before it looks at the block above, and the call
  \<^verbatim>\<open>build_method_block(summary, ret_for_doc, params, return_hint, param_over, returns_over)\<close>.
\<close>

definition method_block :: "ucd \<Rightarrow> path \<Rightarrow> ustr \<Rightarrow> caps \<Rightarrow> ustr option \<Rightarrow> ustr list" where
  "method_block U path text m_method current_type =
     (let ret = group m_method 2;
          name = group m_method 3;
          params = group m_method 4;
          is_ctor = (current_type = Some name);
          ret_for_doc = (if is_ctor then asc ''void'' else ret);
          ov = match_override path name (asc ''method'');
          guessed = guess_summary_for_member U name (asc ''method'') text (Some ret_for_doc) None;
          summary = (case ov of
                       Some v \<Rightarrow>
                         if override_given ov
                         then (case py_or (ov_summary v) (Some guessed) of
                                 Some s \<Rightarrow> s | None \<Rightarrow> [])
                         else guessed
                     | None \<Rightarrow> guessed);
          param_over = (case ov of
                          Some v \<Rightarrow> if override_given ov then ov_params v else None
                        | None \<Rightarrow> None);
          returns_over = (case ov of
                            Some v \<Rightarrow> if override_given ov then ov_returns v else None
                          | None \<Rightarrow> None);
          return_hint = return_hint_of name
      in build_method_block U summary ret_for_doc params return_hint param_over returns_over)"

text \<open>The branch of a line that matches \<open>METHOD_PATTERN\<close>.\<close>

definition on_method :: "ucd \<Rightarrow> path \<Rightarrow> ustr \<Rightarrow> caps \<Rightarrow> pstate \<Rightarrow> pstate" where
  "on_method U path text m_method st =
     (case st of (lines, i, current_type, changed) \<Rightarrow>
        let name = group m_method 3;
            block_pos = find_preceding_xml_block lines i;
            ov = match_override path name (asc ''method'');
            block = method_block U path text m_method current_type
        in (case block_pos of
              Some (start, end) \<Rightarrow>
                (let block_text = block_text_of lines start end;
                     replace = (override_given ov \<or> is_placeholder block_text
                       \<or> ((name = asc ''Convert'' \<or> name = asc ''ConvertBack'')
                           \<and> (contains block_text K_converts_to
                                \<or> contains block_text K_back_converts_to)))
                 in if replace
                    then (case splice_replace lines i start end block of
                            (lines', i') \<Rightarrow> (lines', i' + 1, current_type, True))
                    else (lines, i + 1, current_type, changed))
            | None \<Rightarrow>
                (case splice_insert lines i block of
                   (lines', i') \<Rightarrow> (lines', i' + 1, current_type, True))))"

text \<open>
  The block that the branch of \<open>PROPERTY_PATTERN\<close> builds:
  \<^verbatim>\<open>summary = guess_summary_for_member(name, "property", text)\<close>,
  \<^verbatim>\<open>block = build_summary_block(summary)\<close>.
\<close>

definition property_block :: "ucd \<Rightarrow> ustr \<Rightarrow> caps \<Rightarrow> ustr list" where
  "property_block U text m_prop =
     build_summary_block
       (guess_summary_for_member U (group m_prop 3) (asc ''property'') text None None)"

text \<open>The branch of a line that matches \<open>PROPERTY_PATTERN\<close> and holds no parenthesis.\<close>

definition on_property :: "ucd \<Rightarrow> ustr \<Rightarrow> caps \<Rightarrow> pstate \<Rightarrow> pstate" where
  "on_property U text m_prop st =
     (case st of (lines, i, current_type, changed) \<Rightarrow>
        let block_pos = find_preceding_xml_block lines i;
            block = property_block U text m_prop
        in (case block_pos of
              Some (start, end) \<Rightarrow>
                if is_placeholder (block_text_of lines start end)
                then (case splice_replace lines i start end block of
                        (lines', i') \<Rightarrow> (lines', i' + 1, current_type, True))
                else (lines, i + 1, current_type, changed)
            | None \<Rightarrow>
                (case splice_insert lines i block of
                   (lines', i') \<Rightarrow> (lines', i' + 1, current_type, True))))"

text \<open>One pass through the body of \<^verbatim>\<open>while i < len(lines)\<close>.\<close>

definition loop_body :: "ucd \<Rightarrow> path \<Rightarrow> ustr \<Rightarrow> pstate \<Rightarrow> pstate" where
  "loop_body U path text st =
     (case st of (lines, i, current_type, changed) \<Rightarrow>
        let line = lines ! i in
        (case re_match U TYPE_PATTERN line of
           Some m_type \<Rightarrow> on_type U text m_type st
         | None \<Rightarrow>
             (case re_match U METHOD_PATTERN line of
                Some m_method \<Rightarrow> on_method U path text m_method st
              | None \<Rightarrow>
                  (case re_match U PROPERTY_PATTERN line of
                     Some m_prop \<Rightarrow>
                       if \<not> List.member line 40 then on_property U text m_prop st
                       else (lines, i + 1, current_type, changed)
                   | None \<Rightarrow> (lines, i + 1, current_type, changed)))))"

text \<open>
  The located block lies above the declaration: \<open>start \<le> end < idx\<close>. The loop of
  \<open>process_file\<close> ends because of it.
\<close>

lemma block_start_le: "block_start lines k \<le> k"
  by (induction k) simp_all

lemma scan_up_bounds: "scan_up lines idx = Some (start, end) \<Longrightarrow> start \<le> end \<and> end < idx"
proof (induction idx)
  case 0
  then show ?case by simp
next
  case (Suc j)
  then show ?case
    using block_start_le[of lines j] by (auto simp: Let_def less_Suc_eq split: if_splits)
qed

lemma splice_replace_measure:
  assumes "start \<le> end" and "end < i" and "i < length lines"
    and "splice_replace lines i start end block = (lines', i')"
  shows "length lines' - (i' + 1) < length lines - i"
  using assms by (auto simp: splice_replace_def Let_def)

lemma loop_body_measure:
  assumes "i < length lines" and "loop_body U path text (lines, i, ct, ch) = (lines', i', ct', ch')"
  shows "length lines' - i' < length lines - i"
proof -
  have ins: "splice_insert lines i b = (l2, i2) \<Longrightarrow> length l2 - (i2 + 1) < length lines - i"
    for b l2 i2
    using assms(1) by (auto simp: splice_insert_def)
  have rep: "find_preceding_xml_block lines i = Some (s, e) \<Longrightarrow>
      splice_replace lines i s e b = (l2, i2) \<Longrightarrow> length l2 - (i2 + 1) < length lines - i"
    for s e b l2 i2
    using scan_up_bounds[of lines i s e] splice_replace_measure[of s e i lines b l2 i2] assms(1)
    by (simp add: find_preceding_xml_block_def)
  show ?thesis
    using assms ins rep
    by (auto simp: loop_body_def on_type_def on_method_def on_property_def Let_def
             split: option.splits prod.splits if_splits)
qed

text \<open>
  \<^verbatim>\<open>while i < len(lines):\<close> Every pass brings the cursor one line closer to the end of
  the buffer, so the loop ends.
\<close>

function process_loop :: "ucd \<Rightarrow> path \<Rightarrow> ustr \<Rightarrow> pstate \<Rightarrow> pstate" where
  "process_loop U path text (lines, i, current_type, changed) =
     (if i < length lines
      then process_loop U path text (loop_body U path text (lines, i, current_type, changed))
      else (lines, i, current_type, changed))"
  by pat_completeness auto
termination
proof (relation "measure (\<lambda>(U, path, text, lines, i, ct, ch). length lines - i)")
  show "wf (measure (\<lambda>(U, path, text, lines, i, ct, ch). length lines - i))" by simp
next
  fix U path t and ls :: "ustr list" and i and ct :: "ustr option" and ch :: bool
  assume "i < length ls"
  then show "((U, path, t, loop_body U path t (ls, i, ct, ch)), (U, path, t, ls, i, ct, ch))
             \<in> measure (\<lambda>(U, path, text, lines, i, ct, ch). length lines - i)"
    using loop_body_measure[of i ls U path t ct ch]
    by (cases "loop_body U path t (ls, i, ct, ch)") auto
qed

text \<open>
  \<open>process_file(path)\<close>, as a function of the content of the file: the content after the
  call, and the returned flag. The file is written, with \<^verbatim>\<open>''.join(lines)\<close>, only
  when something changed.
\<close>

definition process_file :: "ucd \<Rightarrow> path \<Rightarrow> ustr \<Rightarrow> ustr \<times> bool" where
  "process_file U path content =
     (let text = universal_newlines content;
          lines = splitlines text
      in case process_loop U path text (lines, 0, None, False) of
           (lines', i, current_type, changed) \<Rightarrow>
             if changed then (concat lines', True) else (content, False))"

declare rmatch.simps [simp del] findall.simps [simp del] sub_empty.simps [simp del]
  process_loop.simps [simp del]

section \<open>Notions used in the proofs\<close>

text \<open>
  \<open>eats Q ne U r\<close>: whenever \<open>r\<close> matches, the text it consumed is a prefix of the input
  made of characters that satisfy \<open>Q\<close>, and a non-empty one if \<open>ne\<close> holds.
\<close>

definition eats :: "(nat \<Rightarrow> bool) \<Rightarrow> bool \<Rightarrow> ucd \<Rightarrow> rx \<Rightarrow> bool" where
  "eats Q ne U r =
     (\<forall>p s c m. m \<in> set (rmatch U r p s c) \<longrightarrow>
        (\<exists>t. s = t @ fst (snd m) \<and> list_all Q t \<and> (ne \<longrightarrow> t \<noteq> [])))"

text \<open>The entries of an override table, each with its member kind and member name.\<close>

definition override_entries :: "override_table \<Rightarrow> (ustr \<times> ustr \<times> override) list" where
  "override_entries T =
     concat (map (\<lambda>e. concat (map (\<lambda>k. map (\<lambda>m. (fst k, fst m, snd m)) (snd k)) (snd e))) T)"

text \<open>The summary text that the specification gives for \<open>GetUserCount\<close>.\<close>

definition spec_get_user_count_summary :: ustr where
  "spec_get_user_count_summary =
     asc ''user count '' @ [47484, 32, 44032, 51256, 50741, 45768, 45796, 46]"

text \<open>
  A comment line, and a line that the locator skips (blank, or opening an attribute), as
  \<open>find_preceding_xml_block\<close> tests them.
\<close>

definition is_doc :: "ustr \<Rightarrow> bool" where
  "is_doc l = startswith (lstrip l) (asc ''///'')"

definition is_skip :: "ustr \<Rightarrow> bool" where
  "is_skip l = (\<not> is_doc l \<and> (strip (lstrip l) = [] \<or> startswith (lstrip l) (asc ''[''))) "

text \<open>
  The three branches of the loop have one shape. \<open>decl_block\<close> is the block that the
  branch of a line would build (\<open>None\<close> for a line that no branch takes), \<open>wants_replace\<close>
  the test that the branch applies to the text of an existing block, \<open>next_type\<close> the value
  of \<open>current_type\<close> after the line.
\<close>

definition decl_block :: "ucd \<Rightarrow> path \<Rightarrow> ustr \<Rightarrow> ustr \<Rightarrow> ustr option \<Rightarrow> ustr list option" where
  "decl_block U path t l ct =
     (case re_match U TYPE_PATTERN l of
        Some m \<Rightarrow> Some (type_block U t m)
      | None \<Rightarrow>
          (case re_match U METHOD_PATTERN l of
             Some m \<Rightarrow> Some (method_block U path t m ct)
           | None \<Rightarrow>
               (case re_match U PROPERTY_PATTERN l of
                  Some m \<Rightarrow> if \<not> List.member l 40 then Some (property_block U t m) else None
                | None \<Rightarrow> None)))"

definition wants_replace :: "ucd \<Rightarrow> path \<Rightarrow> ustr \<Rightarrow> ustr \<Rightarrow> bool" where
  "wants_replace U path l bt =
     (case re_match U TYPE_PATTERN l of
        Some m \<Rightarrow> is_placeholder bt \<or> group m 2 = asc ''interface''
      | None \<Rightarrow>
          (case re_match U METHOD_PATTERN l of
             Some m \<Rightarrow>
               override_given (match_override path (group m 3) (asc ''method''))
               \<or> is_placeholder bt
               \<or> ((group m 3 = asc ''Convert'' \<or> group m 3 = asc ''ConvertBack'')
                   \<and> (contains bt K_converts_to \<or> contains bt K_back_converts_to))
           | None \<Rightarrow> is_placeholder bt))"

definition next_type :: "ucd \<Rightarrow> ustr \<Rightarrow> ustr option \<Rightarrow> ustr option" where
  "next_type U l ct = (case re_match U TYPE_PATTERN l of Some m \<Rightarrow> Some (group m 3) | None \<Rightarrow> ct)"

text \<open>
  One pass of the loop seen from the lines before the cursor: \<open>step\<close> is what the pass makes
  of them, \<open>spliced\<close> whether it changed the buffer, and \<open>run\<close> the whole loop as a
  recursion over the lines from the cursor on.
\<close>

definition step :: "ucd \<Rightarrow> path \<Rightarrow> ustr \<Rightarrow> ustr list \<Rightarrow> ustr \<Rightarrow> ustr option \<Rightarrow> ustr list" where
  "step U path t pre l ct =
     (case decl_block U path t l ct of
        None \<Rightarrow> pre
      | Some b \<Rightarrow>
          (case scan_up pre (length pre) of
             None \<Rightarrow> pre @ b
           | Some (s, e) \<Rightarrow>
               if wants_replace U path l (block_text_of pre s e)
               then take s pre @ drop (e + 1) pre @ b
               else pre))"

definition spliced :: "ucd \<Rightarrow> path \<Rightarrow> ustr \<Rightarrow> ustr list \<Rightarrow> ustr \<Rightarrow> ustr option \<Rightarrow> bool" where
  "spliced U path t pre l ct =
     (case decl_block U path t l ct of
        None \<Rightarrow> False
      | Some b \<Rightarrow>
          (case scan_up pre (length pre) of
             None \<Rightarrow> True
           | Some (s, e) \<Rightarrow> wants_replace U path l (block_text_of pre s e)))"

fun run :: "ucd \<Rightarrow> path \<Rightarrow> ustr \<Rightarrow> ustr list \<Rightarrow> ustr list \<Rightarrow> ustr option \<Rightarrow> ustr list" where
  "run U path t pre [] ct = pre"
| "run U path t pre (l # rest) ct = run U path t (step U path t pre l ct @ [l]) rest (next_type U l ct)"

section \<open>Evaluation\<close>

text \<open>The equations that compute the model on a concrete input.\<close>

lemmas K_defs =
  K_performs_action_def K_returns_result_def K_input_value_def K_target_type_def K_parameter_def
  K_culture_info_def K_target_def K_type_def K_name_def K_collection_def K_items_def K_string_def
  K_color_def K_attribute_def K_actual_def K_expected_def K_operator_def K_whether_def
  K_true_if_condition_def K_convert_def K_returns_conversion_def K_defines_interface_def
  K_defines_enum_def K_provides_converter_def K_provides_utility_def K_defines_attribute_def
  K_provides_extension_def K_provides_def K_gets_value_def K_sets_value_def K_adds_def
  K_removes_def K_updates_def K_creates_def K_deletes_def K_finds_def K_loads_def K_saves_def
  K_parses_def K_converts_value_def K_converts_back_def K_converts_to_def K_tries_def
  K_checks_is_def K_checks_has_def K_checks_contains_def K_checks_starts_def K_checks_ends_def
  K_gets_or_sets_def K_success_def K_true_on_success_def K_gets_word_def K_finds_word_def
  K_creates_word_def K_gets_def K_sets_def OV_AddRange_summary_def OV_GetColorName_summary_def
  OV_GetColorName_returns_def OV_ToColor_summary_def OV_ToColor_returns_def
  OV_TryConvertColor_summary_def OV_TryConvertColor_returns_def OV_ToList_summary_def
  K_defines_interface_of_def OV_AddRange_collection_def OV_AddRange_items_def
  OV_GetColorName_color_def OV_color_string_def OV_ToColor_defaultColor_def
  OV_TryConvertColor_color_def PLACEHOLDER_def K_back_converts_to_def

lemmas rx_simps = rmatch.simps findall.simps sub_empty.simps one_char_def startswith_def
  Many1_def Maybe_def seqs_def alts_def asc_def re_match_def group_def at_word_boundary_def
  is_space_def is_digit_def is_word_def access_def ident_def type_token_def kw_def

lemmas str_simps = lstrip_def rstrip_def strip_def split_ws_def endswith_def lower_def is_upper_def
  is_lower_def is_linebreak_def splitlines_def to_korean_noun_def

section \<open>What a match consumes\<close>



lemma eatsD:
  "eats Q ne U r \<Longrightarrow> m \<in> set (rmatch U r p s c) \<Longrightarrow>
     \<exists>t. s = t @ fst (snd m) \<and> list_all Q t \<and> (ne \<longrightarrow> t \<noteq> [])"
  unfolding eats_def by blast

lemma eats_weaken: "eats Q True U r \<Longrightarrow> eats Q ne U r"
  unfolding eats_def by blast

lemma eats_one_char:
  assumes "\<And>p s c. rmatch U r p s c = one_char P s c" and "\<And>x. P x \<Longrightarrow> Q x"
  shows "eats Q ne U r"
  unfolding eats_def
proof (intro allI impI)
  fix p s c m
  assume "m \<in> set (rmatch U r p s c)"
  then have m: "m \<in> set (one_char P s c)" by (simp add: assms(1))
  then obtain x xs where s: "s = x # xs" and "P x" and "m = (Some x, xs, c)"
    by (cases s) (auto simp: one_char_def split: if_splits)
  then have "s = [x] @ fst (snd m) \<and> list_all Q [x] \<and> (ne \<longrightarrow> [x] \<noteq> [])"
    using assms(2) by simp
  then show "\<exists>t. s = t @ fst (snd m) \<and> list_all Q t \<and> (ne \<longrightarrow> t \<noteq> [])" by blast
qed

lemma eats_Eps: "eats Q False U Eps"
  unfolding eats_def by (simp add: rmatch.simps)

lemma eats_NotAhead: "eats Q False U (NotAhead r)"
  unfolding eats_def by (simp add: rmatch.simps split: if_splits)

lemma in_Seq:
  "m \<in> set (rmatch U (Seq a b) p s c) \<longleftrightarrow>
     (\<exists>k \<in> set (rmatch U a p s c). m \<in> set (rmatch U b (fst k) (fst (snd k)) (snd (snd k))))"
  by (auto simp: rmatch.simps)

lemma eats_Seq:
  assumes "eats Q na U a" and "eats Q nb U b"
  shows "eats Q (na \<or> nb) U (Seq a b)"
  unfolding eats_def
proof (intro allI impI)
  fix p s c m
  assume "m \<in> set (rmatch U (Seq a b) p s c)"
  then obtain k where k: "k \<in> set (rmatch U a p s c)"
    and m: "m \<in> set (rmatch U b (fst k) (fst (snd k)) (snd (snd k)))"
    unfolding in_Seq by blast
  from eatsD[OF assms(1) k] obtain t1 where
    t1: "s = t1 @ fst (snd k)" "list_all Q t1" "na \<longrightarrow> t1 \<noteq> []" by blast
  from eatsD[OF assms(2) m] obtain t2 where
    t2: "fst (snd k) = t2 @ fst (snd m)" "list_all Q t2" "nb \<longrightarrow> t2 \<noteq> []" by blast
  have "s = (t1 @ t2) @ fst (snd m) \<and> list_all Q (t1 @ t2) \<and> (na \<or> nb \<longrightarrow> t1 @ t2 \<noteq> [])"
    using t1 t2 by auto
  then show "\<exists>t. s = t @ fst (snd m) \<and> list_all Q t \<and> (na \<or> nb \<longrightarrow> t \<noteq> [])" by blast
qed

lemma eats_Alt:
  assumes "eats Q ne U a" and "eats Q ne U b"
  shows "eats Q ne U (Alt a b)"
  unfolding eats_def
proof (intro allI impI)
  fix p s c m
  assume "m \<in> set (rmatch U (Alt a b) p s c)"
  then have "m \<in> set (rmatch U a p s c) \<or> m \<in> set (rmatch U b p s c)"
    by (simp add: rmatch.simps)
  then show "\<exists>t. s = t @ fst (snd m) \<and> list_all Q t \<and> (ne \<longrightarrow> t \<noteq> [])"
    using eatsD[OF assms(1)] eatsD[OF assms(2)] by blast
qed

lemma in_Star:
  "m \<in> set (rmatch U (Star a) p s c) \<longleftrightarrow>
     m = (p, s, c) \<or>
     (\<exists>k \<in> set (rmatch U a p s c). length (fst (snd k)) < length s \<and>
         m \<in> set (rmatch U (Star a) (fst k) (fst (snd k)) (snd (snd k))))"
  by (subst rmatch.simps) (auto split: if_splits)

lemma eats_Star:
  assumes "eats Q ne U a"
  shows "eats Q False U (Star a)"
proof -
  have "\<forall>p c m. m \<in> set (rmatch U (Star a) p s c) \<longrightarrow> (\<exists>t. s = t @ fst (snd m) \<and> list_all Q t)" for s
  proof (induction s rule: length_induct)
    case (1 s)
    show ?case
    proof (intro allI impI)
      fix p c m
      assume "m \<in> set (rmatch U (Star a) p s c)"
      then consider "m = (p, s, c)"
        | k where "k \<in> set (rmatch U a p s c)" "length (fst (snd k)) < length s"
            "m \<in> set (rmatch U (Star a) (fst k) (fst (snd k)) (snd (snd k)))"
        using in_Star[of m U a p s c] by blast
      then show "\<exists>t. s = t @ fst (snd m) \<and> list_all Q t"
      proof cases
        case 1
        then show ?thesis by simp
      next
        case 2
        from eatsD[OF assms 2(1)] obtain t1 where t1: "s = t1 @ fst (snd k)" "list_all Q t1"
          by blast
        from "1.IH" 2(2,3) obtain t2 where t2: "fst (snd k) = t2 @ fst (snd m)" "list_all Q t2"
          by blast
        have "s = (t1 @ t2) @ fst (snd m) \<and> list_all Q (t1 @ t2)" using t1 t2 by auto
        then show ?thesis by blast
      qed
    qed
  qed
  then show ?thesis unfolding eats_def by blast
qed

lemma eats_Many1:
  assumes "eats Q True U a"
  shows "eats Q True U (Many1 a)"
  unfolding Many1_def using eats_Seq[OF assms eats_Star[OF assms]] by simp

lemma eats_Maybe:
  assumes "eats Q ne U a"
  shows "eats Q False U (Maybe a)"
proof -
  have "eats Q False U a" using assms unfolding eats_def by blast
  then show ?thesis unfolding Maybe_def by (intro eats_Alt eats_Eps)
qed

lemma Star_self: "(p, s, c) \<in> set (rmatch U (Star a) p s c)"
  by (subst in_Star) simp

lemma token_sound: "eats (token_char U) True U TOKEN_PATTERN"
proof -
  have up: "eats (token_char U) True U (Range [(65, 90)])"
    by (rule eats_one_char[where P = "in_ranges [(65, 90)]"])
       (auto simp: token_char_def is_upper_def rmatch.simps)
  have lo: "eats (token_char U) True U (Range [(97, 122)])"
    by (rule eats_one_char[where P = "in_ranges [(97, 122)]"])
       (auto simp: token_char_def is_lower_def rmatch.simps)
  have dg: "eats (token_char U) True U Digit"
    by (rule eats_one_char[where P = "is_digit U"]) (auto simp: token_char_def rmatch.simps)
  have a1: "eats (token_char U) True U (Seq (Maybe (Range [(65, 90)])) (Many1 (Range [(97, 122)])))"
    using eats_Seq[OF eats_Maybe[OF up] eats_Many1[OF lo]] by simp
  have a2: "eats (token_char U) True U (Seq (Many1 (Range [(65, 90)])) (NotAhead (Range [(97, 122)])))"
    using eats_Seq[OF eats_Many1[OF up] eats_NotAhead] by simp
  have a3: "eats (token_char U) True U (Many1 Digit)"
    by (rule eats_Many1[OF dg])
  show ?thesis
    unfolding TOKEN_PATTERN_def alts_def using a1 a2 a3 by (simp add: eats_Alt)
qed

lemma Many1_class_nonempty:
  assumes "\<And>p s c. rmatch U r p s c = one_char P s c" and "P x"
  shows "rmatch U (Many1 r) p (x # xs) c \<noteq> []"
proof -
  have "(Some x, xs, c) \<in> set (rmatch U r p (x # xs) c)"
    using assms by (simp add: one_char_def)
  moreover have "(Some x, xs, c) \<in> set (rmatch U (Star r) (Some x) xs c)" by (rule Star_self)
  ultimately have "(Some x, xs, c) \<in> set (rmatch U (Many1 r) p (x # xs) c)"
    unfolding Many1_def in_Seq by force
  then show ?thesis by (metis empty_iff empty_set)
qed

lemma Seq_nonempty:
  assumes "k \<in> set (rmatch U a p s c)" and "rmatch U b (fst k) (fst (snd k)) (snd (snd k)) \<noteq> []"
  shows "rmatch U (Seq a b) p s c \<noteq> []"
proof -
  from assms(2) obtain m where "m \<in> set (rmatch U b (fst k) (fst (snd k)) (snd (snd k)))"
    by (meson last_in_set)
  with assms(1) have "m \<in> set (rmatch U (Seq a b) p s c)" unfolding in_Seq by blast
  then show ?thesis by (metis empty_iff empty_set)
qed

lemma token_complete:
  assumes "token_char U x"
  shows "rmatch U TOKEN_PATTERN p (x # xs) c \<noteq> []"
proof -
  let ?Up = "Range [(65, 90)]" and ?Lo = "Range [(97, 122)]"
  let ?A1 = "Seq (Maybe ?Up) (Many1 ?Lo)" and ?A2 = "Seq (Many1 ?Up) (NotAhead ?Lo)"
  have tp: "rmatch U TOKEN_PATTERN p (x # xs) c =
      rmatch U ?A1 p (x # xs) c @ rmatch U ?A2 p (x # xs) c @ rmatch U (Many1 Digit) p (x # xs) c"
    by (simp add: TOKEN_PATTERN_def alts_def rmatch.simps)
  consider "is_lower x" | "is_upper x" "\<exists>y ys. xs = y # ys \<and> is_lower y"
    | "is_upper x" "\<not> (\<exists>y ys. xs = y # ys \<and> is_lower y)" | "is_digit U x"
    using assms unfolding token_char_def by blast
  then show ?thesis
  proof cases
    case 1
    have k: "(p, x # xs, c) \<in> set (rmatch U (Maybe ?Up) p (x # xs) c)"
      by (simp add: Maybe_def rmatch.simps)
    have "rmatch U (Many1 ?Lo) p (x # xs) c \<noteq> []"
      by (rule Many1_class_nonempty[where P = "in_ranges [(97, 122)]"])
         (use 1 in \<open>auto simp: is_lower_def rmatch.simps\<close>)
    then have "rmatch U ?A1 p (x # xs) c \<noteq> []"
      using Seq_nonempty[OF k] by simp
    then show ?thesis by (simp add: tp)
  next
    case 2
    then obtain y ys where xs: "xs = y # ys" and y: "is_lower y" by blast
    have k: "(Some x, xs, c) \<in> set (rmatch U (Maybe ?Up) p (x # xs) c)"
      using 2(1) by (simp add: Maybe_def one_char_def is_upper_def rmatch.simps)
    have "rmatch U (Many1 ?Lo) (Some x) xs c \<noteq> []"
      unfolding xs
      by (rule Many1_class_nonempty[where P = "in_ranges [(97, 122)]"])
         (use y in \<open>auto simp: is_lower_def rmatch.simps\<close>)
    then have "rmatch U ?A1 p (x # xs) c \<noteq> []"
      using Seq_nonempty[OF k] by simp
    then show ?thesis by (simp add: tp)
  next
    case 3
    have "(Some x, xs, c) \<in> set (rmatch U ?Up p (x # xs) c)"
      using 3(1) by (simp add: one_char_def is_upper_def rmatch.simps)
    moreover have "(Some x, xs, c) \<in> set (rmatch U (Star ?Up) (Some x) xs c)" by (rule Star_self)
    ultimately have "(Some x, xs, c) \<in> set (rmatch U (Many1 ?Up) p (x # xs) c)"
      unfolding Many1_def in_Seq by force
    moreover have "rmatch U (NotAhead ?Lo) (Some x) xs c = [(Some x, xs, c)]"
      using 3(2) by (cases xs) (auto simp: one_char_def is_lower_def rmatch.simps)
    ultimately have "(Some x, xs, c) \<in> set (rmatch U ?A2 p (x # xs) c)"
      unfolding in_Seq by force
    then show ?thesis unfolding tp by (metis append_is_Nil_conv empty_iff empty_set)
  next
    case 4
    have "rmatch U (Many1 Digit) p (x # xs) c \<noteq> []"
      by (rule Many1_class_nonempty[where P = "is_digit U"]) (use 4 in \<open>auto simp: rmatch.simps\<close>)
    then show ?thesis by (simp add: tp)
  qed
qed

lemma findall_tokens:
  "concat (findall U TOKEN_PATTERN p s) = filter (token_char U) s"
proof (induction U "TOKEN_PATTERN" p s rule: findall.induct)
  case (1 U p)
  show ?case by (simp add: findall.simps)
next
  case (2 U p x xs)
  show ?case
  proof (cases "rmatch U TOKEN_PATTERN p (x # xs) []")
    case Nil
    then have "\<not> token_char U x" using token_complete by blast
    then show ?thesis using Nil 2(1) by (simp add: findall.simps)
  next
    case (Cons m ms)
    then have "m \<in> set (rmatch U TOKEN_PATTERN p (x # xs) [])" by simp
    from eatsD[OF token_sound this] obtain t where
      t: "x # xs = t @ fst (snd m)" "list_all (token_char U) t" "t \<noteq> []" by blast
    have "length (x # xs) = length t + length (fst (snd m))"
      by (subst t(1)) simp
    then have len: "length (fst (snd m)) < length (x # xs)"
      and d: "length (x # xs) - length (fst (snd m)) = length t"
      using t(3) by simp_all
    have tk: "take (length (x # xs) - length (fst (snd m))) (x # xs) = t"
      unfolding d by (subst t(1)) simp
    have flt: "filter (token_char U) t = t" using t(2) by (simp add: list_all_iff)
    have "concat (findall U TOKEN_PATTERN p (x # xs)) =
            t @ concat (findall U TOKEN_PATTERN (fst m) (fst (snd m)))"
      using Cons len tk by (simp add: findall.simps)
    also have "\<dots> = t @ filter (token_char U) (fst (snd m))"
      using 2(2)[OF Cons len] by simp
    also have "\<dots> = filter (token_char U) (t @ fst (snd m))"
      by (simp add: flt)
    also have "\<dots> = filter (token_char U) (x # xs)"
      using t(1) by simp
    finally show ?thesis .
  qed
qed

lemma concat_drop_empty: "concat (filter (\<lambda>p. p \<noteq> []) xs) = concat xs"
  by (induction xs) simp_all

lemma nonempty_parts_Nil:
  "filter (\<lambda>p. p \<noteq> []) xs = [] \<longleftrightarrow> concat (filter (\<lambda>p. p \<noteq> []) xs) = []"
  by (induction xs) simp_all

section \<open>The tokenization invariant\<close>

text \<open>
  Claim C6. For every identifier, the fragments of \<open>split_identifier\<close>, concatenated in order,
  are the identifier without the characters that are neither a letter (A to Z, a to z) nor a
  digit, case preserved; and there are no fragments exactly when the identifier has no letter
  and no digit. The statement holds for every string, not only for the identifiers that the
  patterns of the script can capture (which consist of ASCII letters, digits and underscores).
\<close>

theorem split_identifier_concat:
  "concat (split_identifier U name) = filter (token_char U) name \<and>
   (split_identifier U name = [] \<longleftrightarrow> (\<forall>c \<in> set name. \<not> token_char U c))"
proof -
  have c: "concat (split_identifier U name) = filter (token_char U) name"
    unfolding split_identifier_def by (simp add: concat_drop_empty findall_tokens)
  have "split_identifier U name = [] \<longleftrightarrow> concat (split_identifier U name) = []"
    unfolding split_identifier_def by (rule nonempty_parts_Nil)
  also have "\<dots> \<longleftrightarrow> (\<forall>c \<in> set name. \<not> token_char U c)"
    unfolding c by (simp add: filter_empty_conv)
  finally show ?thesis using c by simp
qed

theorem split_identifier_concat_witness:
  "\<forall>U. concat (split_identifier U (asc ''Get_HTTP2'')) = asc ''GetHTTP2''
      \<and> split_identifier U (asc ''__'') = []"
proof (intro allI conjI)
  fix U
  show "concat (split_identifier U (asc ''Get_HTTP2'')) = asc ''GetHTTP2''"
    using split_identifier_concat[of U "asc ''Get_HTTP2''"]
    by (simp add: asc_def token_char_def is_upper_def is_lower_def is_digit_def)
  show "split_identifier U (asc ''__'') = []"
    using split_identifier_concat[of U "asc ''__''"]
    by (simp add: asc_def token_char_def is_upper_def is_lower_def is_digit_def)
qed

section \<open>The override table\<close>

lemma lookup3_entry:
  assumes "lookup3 T key kind member = Some ov"
  shows "(kind, member, ov) \<in> set (override_entries T)"
proof -
  from assms obtain spec ms where "map_of T key = Some spec" "map_of spec kind = Some ms"
    "map_of ms member = Some ov"
    by (auto simp: lookup3_def split: option.splits)
  then have "(key, spec) \<in> set T" "(kind, ms) \<in> set spec" "(member, ov) \<in> set ms"
    by (auto dest: map_of_SomeD)
  then show ?thesis unfolding override_entries_def by force
qed

lemma suffix_lookup_entry:
  "suffix_lookup T fname kind member = Some ov \<Longrightarrow> (kind, member, ov) \<in> set (override_entries T)"
proof (induction T)
  case Nil
  then show ?case by simp
next
  case (Cons e T)
  obtain key spec where e: "e = (key, spec)" by (cases e)
  have tl: "(kind, member, ov) \<in> set (override_entries T) \<Longrightarrow> ?case"
    by (simp add: override_entries_def)
  show ?case
  proof (cases "suffix_lookup T fname kind member = Some ov")
    case True
    then show ?thesis using Cons.IH tl by blast
  next
    case False
    with Cons.prems obtain ms where "map_of spec kind = Some ms" "map_of ms member = Some ov"
      unfolding e by (auto split: if_splits option.splits)
    then have "(kind, ms) \<in> set spec" "(member, ov) \<in> set ms" by (auto dest: map_of_SomeD)
    then show ?thesis unfolding override_entries_def e by force
  qed
qed

lemma match_override_entry:
  assumes "match_override path member kind = Some ov"
  shows "(kind, member, ov) \<in> set (override_entries DOC_OVERRIDES)"
  using assms lookup3_entry suffix_lookup_entry
  by (auto simp: match_override_def Let_def split: option.splits)

lemma override_members:
  "map (\<lambda>e. (fst e, fst (snd e))) (override_entries DOC_OVERRIDES) =
     [(asc ''method'', asc ''AddRange''), (asc ''method'', asc ''GetColorName''),
      (asc ''method'', asc ''ToColor''), (asc ''method'', asc ''TryConvertColor''),
      (asc ''method'', asc ''ToList'')]"
  by (simp add: override_entries_def DOC_OVERRIDES_def)

lemma match_override_member:
  assumes "match_override path member kind = Some ov"
  shows "kind = asc ''method'' \<and> member \<in> set [asc ''AddRange'', asc ''GetColorName'', asc ''ToColor'',
            asc ''TryConvertColor'', asc ''ToList'']"
proof -
  have "(kind, member) \<in> set (map (\<lambda>e. (fst e, fst (snd e))) (override_entries DOC_OVERRIDES))"
    using match_override_entry[OF assms] by force
  then show ?thesis unfolding override_members by auto
qed

lemma no_override:
  assumes "member \<notin> set [asc ''AddRange'', asc ''GetColorName'', asc ''ToColor'',
            asc ''TryConvertColor'', asc ''ToList'']"
  shows "match_override path member kind = None"
  using assms match_override_member[of path member kind] by (cases "match_override path member kind") auto

lemma override_summaries:
  "list_all (\<lambda>e. \<exists>s. ov_summary (snd (snd e)) = Some s \<and> s \<noteq> []) (override_entries DOC_OVERRIDES)"
  by (simp add: override_entries_def DOC_OVERRIDES_def K_defs)

lemma match_override_summary:
  assumes "match_override path member kind = Some ov"
  shows "\<exists>s. ov_summary ov = Some s \<and> s \<noteq> []"
  using match_override_entry[OF assms] override_summaries unfolding list_all_iff by force

section \<open>Single passes of the loop\<close>

text \<open>A method line with no block above it and no override: the block is inserted.\<close>

lemma method_insert_step:
  assumes i: "i < length lines"
    and t0: "re_match U TYPE_PATTERN (lines ! i) = None"
    and m: "re_match U METHOD_PATTERN (lines ! i) = Some m"
    and nb: "find_preceding_xml_block lines i = None"
    and no: "match_override path (group m 3) (asc ''method'') = None"
  shows "loop_body U path t (lines, i, ct, ch) =
     (let ret_for_doc = (if ct = Some (group m 3) then asc ''void'' else group m 2);
          block = build_method_block U
                    (guess_summary_for_member U (group m 3) (asc ''method'') t (Some ret_for_doc) None)
                    ret_for_doc (group m 4) (return_hint_of (group m 3)) None None
      in (take i lines @ block @ drop i lines, i + length block + 1, ct, True))"
  using assms
  by (simp add: loop_body_def on_method_def method_block_def Let_def override_given_def
        splice_insert_def)

text \<open>A line that matches no pattern is passed over.\<close>

lemma skip_step:
  assumes "re_match U TYPE_PATTERN (lines ! i) = None"
    and "re_match U METHOD_PATTERN (lines ! i) = None"
    and "re_match U PROPERTY_PATTERN (lines ! i) = None"
  shows "loop_body U path t (lines, i, ct, ch) = (lines, i + 1, ct, ch)"
  using assms by (simp add: loop_body_def)

section \<open>The scenario of \<open>GetUserCount\<close>\<close>

lemma get_user_count_step:
  assumes i: "i < length lines"
    and l: "lines ! i = asc ''public int GetUserCount()'' @ e" and e: "e = [] \<or> e = [10]"
    and nb: "find_preceding_xml_block lines i = None"
    and ct: "ct \<noteq> Some (asc ''GetUserCount'')"
  shows "loop_body U path t (lines, i, ct, ch) =
     (take i lines @
      [asc ''/// <summary>'' @ [10],
       asc ''/// User Count'' @ K_gets @ [10],
       asc ''/// </summary>'' @ [10],
       asc ''/// <returns>'' @ K_returns_result @ asc ''</returns>'' @ [10]] @ drop i lines,
      i + 5, ct, True)"
proof -
  have t0: "re_match U TYPE_PATTERN (lines ! i) = None"
    unfolding l using e by (auto simp: TYPE_PATTERN_def rx_simps)
  have "\<exists>m. re_match U METHOD_PATTERN (lines ! i) = Some m \<and> group m 2 = asc ''int''
      \<and> group m 3 = asc ''GetUserCount'' \<and> group m 4 = []"
    unfolding l using e by (auto simp: METHOD_PATTERN_def rx_simps)
  then obtain m where m: "re_match U METHOD_PATTERN (lines ! i) = Some m"
    and g: "group m 2 = asc ''int''" "group m 3 = asc ''GetUserCount''" "group m 4 = []"
    by blast
  have no: "match_override path (group m 3) (asc ''method'') = None"
    unfolding g by (rule no_override) (simp add: asc_def)
  have gs: "guess_summary_for_member U (asc ''GetUserCount'') (asc ''method'') t r None
      = asc ''User Count'' @ K_gets" for r
    by (simp add: guess_summary_for_member_def split_identifier_def TOKEN_PATTERN_def rx_simps
          str_simps Let_def)
  have rh: "return_hint_of (asc ''GetUserCount'') = None"
    by (simp add: return_hint_of_def startswith_def asc_def)
  have b: "build_method_block U (asc ''User Count'' @ K_gets) (asc ''int'') [] None None None =
    [asc ''/// <summary>'' @ [10], asc ''/// User Count'' @ K_gets @ [10],
     asc ''/// </summary>'' @ [10],
     asc ''/// <returns>'' @ K_returns_result @ asc ''</returns>'' @ [10]]"
    by (simp add: build_method_block_def build_summary_block_def py_or_def
          return_korean_desc_by_name_def str_simps asc_def startswith_def K_defs Let_def)
  have c: "(ct = Some (asc ''GetUserCount'')) = False" using ct by simp
  show ?thesis
    unfolding method_insert_step[OF i t0 m nb no] g c Let_def if_False gs rh b by simp
qed

text \<open>
  Claim C5, as amended. For the line \<open>public int GetUserCount()\<close> (with or without its
  newline) with no comment block above it, outside a type named \<open>GetUserCount\<close> and for
  every path (no override names the method), one pass of the loop inserts a block of four lines:
  the summary line reads \<open>User Count\<close> followed by the script's suffix for "gets", the
  fragments keeping their case; the returns line carries the generic result phrase; there is no
  parameter line. The cursor moves behind the declaration.
\<close>

theorem get_user_count_block:
  assumes "i < length lines"
    and "lines ! i = asc ''public int GetUserCount()'' @ e" and "e = [] \<or> e = [10]"
    and "find_preceding_xml_block lines i = None"
    and "ct \<noteq> Some (asc ''GetUserCount'')"
  shows "loop_body U path t (lines, i, ct, ch) =
     (take i lines @
      [asc ''/// <summary>'' @ [10],
       asc ''/// User Count'' @ K_gets @ [10],
       asc ''/// </summary>'' @ [10],
       asc ''/// <returns>'' @ K_returns_result @ asc ''</returns>'' @ [10]] @ drop i lines,
      i + 5, ct, True)"
  using assms by (rule get_user_count_step)

theorem get_user_count_block_witness:
  "\<forall>U. loop_body U [] [] ([asc ''public int GetUserCount()'' @ [10]], 0, None, False) =
     ([asc ''/// <summary>'' @ [10],
       asc ''/// User Count'' @ K_gets @ [10],
       asc ''/// </summary>'' @ [10],
       asc ''/// <returns>'' @ K_returns_result @ asc ''</returns>'' @ [10],
       asc ''public int GetUserCount()'' @ [10]], 5, None, True)"
proof
  fix U
  show "loop_body U [] [] ([asc ''public int GetUserCount()'' @ [10]], 0, None, False) =
     ([asc ''/// <summary>'' @ [10],
       asc ''/// User Count'' @ K_gets @ [10],
       asc ''/// </summary>'' @ [10],
       asc ''/// <returns>'' @ K_returns_result @ asc ''</returns>'' @ [10],
       asc ''public int GetUserCount()'' @ [10]], 5, None, True)"
    using get_user_count_block[of 0 "[asc ''public int GetUserCount()'' @ [10]]" "[10]" None U
        "[]" "[]" False]
    by (simp add: find_preceding_xml_block_def)
qed

text \<open>
  The claim as the specification states it fails: the summary line that the pass inserts is not
  the line with the text \<open>user count\<close>, a space and the bare object particle.
\<close>

theorem get_user_count_summary_counterexample:
  "\<forall>U. fst (loop_body U [] [] ([asc ''public int GetUserCount()'' @ [10]], 0, None, False)) ! 1
      \<noteq> asc ''/// '' @ spec_get_user_count_summary @ [10]"
proof
  fix U
  have "loop_body U [] [] ([asc ''public int GetUserCount()'' @ [10]], 0, None, False) =
     (take 0 [asc ''public int GetUserCount()'' @ [10]] @
      [asc ''/// <summary>'' @ [10],
       asc ''/// User Count'' @ K_gets @ [10],
       asc ''/// </summary>'' @ [10],
       asc ''/// <returns>'' @ K_returns_result @ asc ''</returns>'' @ [10]]
        @ drop 0 [asc ''public int GetUserCount()'' @ [10]],
      0 + 5, None, True)"
    by (rule get_user_count_step[where e = "[10]"]) (simp_all add: find_preceding_xml_block_def)
  then show "fst (loop_body U [] [] ([asc ''public int GetUserCount()'' @ [10]], 0, None, False)) ! 1
      \<noteq> asc ''/// '' @ spec_get_user_count_summary @ [10]"
    by (simp add: spec_get_user_count_summary_def asc_def)
qed

section \<open>The scenario of \<open>TryParse\<close>\<close>

lemma try_parse_step:
  assumes i: "i < length lines"
    and l: "lines ! i = asc ''public bool TryParse(string input, out int result)'' @ e"
    and e: "e = [] \<or> e = [10]"
    and nb: "find_preceding_xml_block lines i = None"
    and ct: "ct \<noteq> Some (asc ''TryParse'')"
  shows "loop_body U path t (lines, i, ct, ch) =
     (take i lines @
      [asc ''/// <summary>'' @ [10],
       asc ''/// Parse'' @ K_tries @ [10],
       asc ''/// </summary>'' @ [10],
       asc ''/// <param name='' @ [34] @ asc ''input'' @ [34] @ asc ''>'' @ K_parameter @ asc ''</param>'' @ [10],
       asc ''/// <param name='' @ [34] @ asc ''result'' @ [34] @ asc ''>'' @ K_parameter @ asc ''</param>'' @ [10],
       asc ''/// <returns>'' @ K_true_if_condition @ asc ''</returns>'' @ [10]] @ drop i lines,
      i + 7, ct, True)"
proof -
  have t0: "re_match U TYPE_PATTERN (lines ! i) = None"
    unfolding l using e by (auto simp: TYPE_PATTERN_def rx_simps)
  have "\<exists>m. re_match U METHOD_PATTERN (lines ! i) = Some m \<and> group m 2 = asc ''bool''
      \<and> group m 3 = asc ''TryParse'' \<and> group m 4 = asc ''string input, out int result''"
    unfolding l using e by (auto simp: METHOD_PATTERN_def rx_simps)
  then obtain m where m: "re_match U METHOD_PATTERN (lines ! i) = Some m"
    and g: "group m 2 = asc ''bool''" "group m 3 = asc ''TryParse''"
      "group m 4 = asc ''string input, out int result''"
    by blast
  have no: "match_override path (group m 3) (asc ''method'') = None"
    unfolding g by (rule no_override) (simp add: asc_def)
  have gs: "guess_summary_for_member U (asc ''TryParse'') (asc ''method'') t r None
      = asc ''Parse'' @ K_tries" for r
    by (simp add: guess_summary_for_member_def split_identifier_def TOKEN_PATTERN_def rx_simps
          str_simps Let_def converter_context_def)
  have rh: "return_hint_of (asc ''TryParse'') = Some K_true_if_condition"
    by (simp add: return_hint_of_def startswith_def asc_def)
  have pn: "param_name U (asc ''string input'') = Some (asc ''input'')"
     "param_name U (asc ''out int result'') = Some (asc ''result'')"
    by (simp_all add: param_name_def ATTR_PATTERN_def rx_simps str_simps Let_def)
  have pd: "param_korean_desc U (asc ''input'') = K_parameter"
      "param_korean_desc U (asc ''result'') = K_parameter"
    by (simp_all add: param_korean_desc_def param_mapping_def lower_def asc_def is_upper_def)
  have sp: "map strip (split_on 44 (asc ''string input, out int result'')) =
      [asc ''string input'', asc ''out int result'']"
    "strip (asc ''string input, out int result'') \<noteq> []"
    by (simp_all add: str_simps asc_def is_space_def)
  have kc: "K_true_if_condition \<noteq> []" by (simp add: K_defs)
  have b: "build_method_block U (asc ''Parse'' @ K_tries) (asc ''bool'')
      (asc ''string input, out int result'') (Some K_true_if_condition) None None =
    [asc ''/// <summary>'' @ [10], asc ''/// Parse'' @ K_tries @ [10],
     asc ''/// </summary>'' @ [10],
     asc ''/// <param name='' @ [34] @ asc ''input'' @ [34] @ asc ''>'' @ K_parameter @ asc ''</param>'' @ [10],
     asc ''/// <param name='' @ [34] @ asc ''result'' @ [34] @ asc ''>'' @ K_parameter @ asc ''</param>'' @ [10],
     asc ''/// <returns>'' @ K_true_if_condition @ asc ''</returns>'' @ [10]]"
    by (simp add: build_method_block_def Let_def sp pn pd param_line_def build_summary_block_def
          py_or_def kc)
       (simp add: asc_def)
  have c: "(ct = Some (asc ''TryParse'')) = False" using ct by simp
  show ?thesis
    unfolding method_insert_step[OF i t0 m nb no] g c Let_def if_False gs rh b by simp
qed

text \<open>
  Claim C3, as amended. For the line \<open>public bool TryParse(string input, out int result)\<close>
  with no comment block above it, outside a type named \<open>TryParse\<close> and for every path, one
  pass of the loop inserts a block of six lines: the summary comes from the rule for the prefix
  "try"; there are exactly two parameter lines, for \<open>input\<close> and for \<open>result\<close>, both with
  the fallback phrase for a parameter; and the returns line reads the hint that the driver gives
  to every method whose name starts with \<open>Try\<close>, "returns true if the condition holds".
\<close>

theorem try_parse_block:
  assumes "i < length lines"
    and "lines ! i = asc ''public bool TryParse(string input, out int result)'' @ e"
    and "e = [] \<or> e = [10]"
    and "find_preceding_xml_block lines i = None"
    and "ct \<noteq> Some (asc ''TryParse'')"
  shows "loop_body U path t (lines, i, ct, ch) =
     (take i lines @
      [asc ''/// <summary>'' @ [10],
       asc ''/// Parse'' @ K_tries @ [10],
       asc ''/// </summary>'' @ [10],
       asc ''/// <param name='' @ [34] @ asc ''input'' @ [34] @ asc ''>'' @ K_parameter @ asc ''</param>'' @ [10],
       asc ''/// <param name='' @ [34] @ asc ''result'' @ [34] @ asc ''>'' @ K_parameter @ asc ''</param>'' @ [10],
       asc ''/// <returns>'' @ K_true_if_condition @ asc ''</returns>'' @ [10]] @ drop i lines,
      i + 7, ct, True)"
  using assms by (rule try_parse_step)

theorem try_parse_block_witness:
  "\<forall>U. loop_body U [] []
        ([asc ''public bool TryParse(string input, out int result)'' @ [10]], 0, None, False) =
     ([asc ''/// <summary>'' @ [10],
       asc ''/// Parse'' @ K_tries @ [10],
       asc ''/// </summary>'' @ [10],
       asc ''/// <param name='' @ [34] @ asc ''input'' @ [34] @ asc ''>'' @ K_parameter @ asc ''</param>'' @ [10],
       asc ''/// <param name='' @ [34] @ asc ''result'' @ [34] @ asc ''>'' @ K_parameter @ asc ''</param>'' @ [10],
       asc ''/// <returns>'' @ K_true_if_condition @ asc ''</returns>'' @ [10],
       asc ''public bool TryParse(string input, out int result)'' @ [10]], 7, None, True)"
proof
  fix U
  show "loop_body U [] []
        ([asc ''public bool TryParse(string input, out int result)'' @ [10]], 0, None, False) =
     ([asc ''/// <summary>'' @ [10],
       asc ''/// Parse'' @ K_tries @ [10],
       asc ''/// </summary>'' @ [10],
       asc ''/// <param name='' @ [34] @ asc ''input'' @ [34] @ asc ''>'' @ K_parameter @ asc ''</param>'' @ [10],
       asc ''/// <param name='' @ [34] @ asc ''result'' @ [34] @ asc ''>'' @ K_parameter @ asc ''</param>'' @ [10],
       asc ''/// <returns>'' @ K_true_if_condition @ asc ''</returns>'' @ [10],
       asc ''public bool TryParse(string input, out int result)'' @ [10]], 7, None, True)"
    using try_parse_block[of 0 "[asc ''public bool TryParse(string input, out int result)'' @ [10]]"
        "[10]" None U "[]" "[]" False]
    by (simp add: find_preceding_xml_block_def)
qed

text \<open>
  The claim as the specification states it fails: the returns line that the pass inserts is not
  the one that reads "returns true on success".
\<close>

theorem try_parse_returns_counterexample:
  "\<forall>U. fst (loop_body U [] []
        ([asc ''public bool TryParse(string input, out int result)'' @ [10]], 0, None, False)) ! 5
      \<noteq> asc ''/// <returns>'' @ K_true_on_success @ asc ''</returns>'' @ [10]"
proof
  fix U
  let ?l = "asc ''public bool TryParse(string input, out int result)'' @ [10]"
  have "loop_body U [] [] ([?l], 0, None, False) =
     (take 0 [?l] @
      [asc ''/// <summary>'' @ [10],
       asc ''/// Parse'' @ K_tries @ [10],
       asc ''/// </summary>'' @ [10],
       asc ''/// <param name='' @ [34] @ asc ''input'' @ [34] @ asc ''>'' @ K_parameter @ asc ''</param>'' @ [10],
       asc ''/// <param name='' @ [34] @ asc ''result'' @ [34] @ asc ''>'' @ K_parameter @ asc ''</param>'' @ [10],
       asc ''/// <returns>'' @ K_true_if_condition @ asc ''</returns>'' @ [10]] @ drop 0 [?l],
      0 + 7, None, True)"
    by (rule try_parse_step[where e = "[10]"]) (simp_all add: find_preceding_xml_block_def)
  then show "fst (loop_body U [] [] ([?l], 0, None, False)) ! 5
      \<noteq> asc ''/// <returns>'' @ K_true_on_success @ asc ''</returns>'' @ [10]"
    by (simp add: K_true_if_condition_def K_true_on_success_def asc_def)
qed

section \<open>The scenario of the constructor\<close>

lemma ctor_line_no_match:
  assumes "e = [] \<or> e = [10]"
  shows "re_match U TYPE_PATTERN (asc ''    public Widget(int size)'' @ e) = None"
    and "re_match U METHOD_PATTERN (asc ''    public Widget(int size)'' @ e) = None"
    and "re_match U PROPERTY_PATTERN (asc ''    public Widget(int size)'' @ e) = None"
  using assms
  by (auto simp: TYPE_PATTERN_def METHOD_PATTERN_def PROPERTY_PATTERN_def rx_simps)

text \<open>
  Claim C4 fails on the code. \<open>METHOD_PATTERN\<close> asks for a return type and white space before
  the name, so the line \<open>public Widget(int size)\<close> matches no pattern: in the file below the
  script documents the class and leaves the constructor without a block.
\<close>

theorem constructor_line_not_recognized:
  "process_file U path (concat [asc ''public class Widget'' @ [10], asc ''{'' @ [10],
       asc ''    public Widget(int size)'' @ [10], asc ''    {'' @ [10], asc ''    }'' @ [10],
       asc ''}'' @ [10]]) =
   (concat [asc ''/// <summary>'' @ [10], asc ''/// Widget'' @ K_provides @ [10],
       asc ''/// </summary>'' @ [10],
       asc ''public class Widget'' @ [10], asc ''{'' @ [10],
       asc ''    public Widget(int size)'' @ [10], asc ''    {'' @ [10], asc ''    }'' @ [10],
       asc ''}'' @ [10]], True)"
proof -
  define l0 where "l0 = asc ''public class Widget'' @ [10]"
  define l1 where "l1 = asc ''{'' @ [10]"
  define l2 where "l2 = asc ''    public Widget(int size)'' @ [10]"
  define l3 where "l3 = asc ''    {'' @ [10]"
  define l4 where "l4 = asc ''    }'' @ [10]"
  define l5 where "l5 = asc ''}'' @ [10]"
  define t where "t = concat [l0, l1, l2, l3, l4, l5]"
  define b0 where "b0 = asc ''/// <summary>'' @ [10]"
  define b1 where "b1 = asc ''/// '' @ (asc ''Widget'' @ K_provides) @ [10]"
  define b2 where "b2 = asc ''/// </summary>'' @ [10]"
  have un: "universal_newlines t = t"
    unfolding t_def l0_def l1_def l2_def l3_def l4_def l5_def by (simp add: asc_def)
  have sl: "splitlines t = [l0, l1, l2, l3, l4, l5]"
    unfolding t_def l0_def l1_def l2_def l3_def l4_def l5_def by (simp add: str_simps asc_def)
  have "\<exists>m. re_match U TYPE_PATTERN l0 = Some m \<and> group m 2 = asc ''class'' \<and> group m 3 = asc ''Widget''"
    unfolding l0_def by (simp add: TYPE_PATTERN_def rx_simps)
  then obtain m where m: "re_match U TYPE_PATTERN l0 = Some m" and g: "group m 2 = asc ''class''"
    "group m 3 = asc ''Widget''" by blast
  have gs: "guess_summary_for_member U (asc ''Widget'') (asc ''type'') t None (Some (asc ''class''))
     = asc ''Widget'' @ K_provides"
    unfolding t_def l0_def l1_def l2_def l3_def l4_def l5_def
    by (simp add: guess_summary_for_member_def split_identifier_def TOKEN_PATTERN_def rx_simps
          str_simps Let_def)
  have s0: "loop_body U path t ([l0, l1, l2, l3, l4, l5], 0, None, False) =
      ([b0, b1, b2, l0, l1, l2, l3, l4, l5], 4, Some (asc ''Widget''), True)"
    by (simp add: loop_body_def m on_type_def type_block_def g gs Let_def
          find_preceding_xml_block_def splice_insert_def b0_def b1_def b2_def
          build_summary_block_def)
  have n1: "re_match U TYPE_PATTERN l1 = None" "re_match U METHOD_PATTERN l1 = None"
      "re_match U PROPERTY_PATTERN l1 = None"
    unfolding l1_def by (simp_all add: TYPE_PATTERN_def METHOD_PATTERN_def PROPERTY_PATTERN_def rx_simps)
  have n2: "re_match U TYPE_PATTERN l2 = None" "re_match U METHOD_PATTERN l2 = None"
      "re_match U PROPERTY_PATTERN l2 = None"
    unfolding l2_def by (simp_all add: ctor_line_no_match)
  have n3: "re_match U TYPE_PATTERN l3 = None" "re_match U METHOD_PATTERN l3 = None"
      "re_match U PROPERTY_PATTERN l3 = None"
    unfolding l3_def by (simp_all add: TYPE_PATTERN_def METHOD_PATTERN_def PROPERTY_PATTERN_def rx_simps)
  have n4: "re_match U TYPE_PATTERN l4 = None" "re_match U METHOD_PATTERN l4 = None"
      "re_match U PROPERTY_PATTERN l4 = None"
    unfolding l4_def by (simp_all add: TYPE_PATTERN_def METHOD_PATTERN_def PROPERTY_PATTERN_def rx_simps)
  have n5: "re_match U TYPE_PATTERN l5 = None" "re_match U METHOD_PATTERN l5 = None"
      "re_match U PROPERTY_PATTERN l5 = None"
    unfolding l5_def by (simp_all add: TYPE_PATTERN_def METHOD_PATTERN_def PROPERTY_PATTERN_def rx_simps)
  have "process_loop U path t ([l0, l1, l2, l3, l4, l5], 0, None, False) =
      ([b0, b1, b2, l0, l1, l2, l3, l4, l5], 9, Some (asc ''Widget''), True)"
    by (simp add: process_loop.simps s0 skip_step n1 n2 n3 n4 n5)
  then show ?thesis
    unfolding process_file_def t_def[symmetric] l0_def[symmetric] l1_def[symmetric] l2_def[symmetric]
      l3_def[symmetric] l4_def[symmetric] l5_def[symmetric] un sl Let_def
    by (simp add: b0_def b1_def b2_def asc_def l0_def l1_def l2_def l3_def l4_def l5_def)
qed

section \<open>The comment block locator\<close>

lemma block_start_append: "k \<le> length pre \<Longrightarrow> block_start (pre @ post) k = block_start pre k"
  by (induction k) (simp_all add: nth_append)

lemma scan_up_append: "k \<le> length pre \<Longrightarrow> scan_up (pre @ post) k = scan_up pre k"
  by (induction k) (simp_all add: nth_append block_start_append Let_def)

lemma block_start_run:
  assumes "list_all is_doc docs" and "pre = [] \<or> \<not> is_doc (last pre)"
  shows "block_start (pre @ docs) (length pre + length docs) = length pre"
  using assms(1)
proof (induction docs rule: rev_induct)
  case Nil
  show ?case
  proof (cases pre rule: rev_cases)
    case Nil
    then show ?thesis by simp
  next
    case (snoc ys y)
    then have "\<not> is_doc y" using assms(2) by simp
    then show ?thesis using snoc by (simp add: is_doc_def)
  qed
next
  case (snoc x xs)
  then have x: "is_doc x" and xs: "list_all is_doc xs" by simp_all
  have "block_start (pre @ xs @ [x]) (Suc (length pre + length xs)) =
        block_start (pre @ xs @ [x]) (length pre + length xs)"
    using x by (simp add: is_doc_def nth_append)
  also have "\<dots> = block_start (pre @ xs) (length pre + length xs)"
    using block_start_append[of "length pre + length xs" "pre @ xs" "[x]"] by simp
  finally show ?case using snoc.IH[OF xs] by simp
qed

lemma scan_up_skips:
  assumes "list_all is_skip skips"
  shows "scan_up (pre @ skips) (length pre + length skips) = scan_up pre (length pre)"
  using assms
proof (induction skips rule: rev_induct)
  case Nil
  show ?case by simp
next
  case (snoc x xs)
  then have x: "is_skip x" and xs: "list_all is_skip xs" by simp_all
  have "scan_up (pre @ xs @ [x]) (Suc (length pre + length xs)) =
        scan_up (pre @ xs @ [x]) (length pre + length xs)"
    using x by (auto simp: is_skip_def is_doc_def nth_append Let_def)
  also have "\<dots> = scan_up (pre @ xs) (length pre + length xs)"
    using scan_up_append[of "length pre + length xs" "pre @ xs" "[x]"] by simp
  finally show ?case using snoc.IH[OF xs] by simp
qed

lemma scan_up_doc_end:
  assumes "is_doc x"
  shows "scan_up (pre @ [x]) (Suc (length pre)) = Some (block_start (pre @ [x]) (length pre), length pre)"
  using assms by (simp add: is_doc_def Let_def)

lemma scan_up_run:
  assumes docs: "list_all is_doc docs" "docs \<noteq> []" and pre: "pre = [] \<or> \<not> is_doc (last pre)"
    and skips: "list_all is_skip skips"
  shows "scan_up (pre @ docs @ skips) (length (pre @ docs @ skips)) =
           Some (length pre, length pre + length docs - 1)"
proof -
  obtain xs x where r: "docs = xs @ [x]" using docs(2) by (cases docs rule: rev_cases) auto
  then have x: "is_doc x" and xs: "list_all is_doc xs" using docs(1) by simp_all
  have "scan_up (pre @ docs @ skips) (length (pre @ docs @ skips)) =
        scan_up ((pre @ docs) @ skips) (length (pre @ docs) + length skips)"
    by (simp add: add.assoc)
  also have "\<dots> = scan_up (pre @ docs) (length (pre @ docs))"
    by (rule scan_up_skips[OF skips])
  also have "\<dots> = scan_up ((pre @ xs) @ [x]) (Suc (length (pre @ xs)))"
    by (simp add: r del: scan_up.simps)
  also have "\<dots> = Some (block_start ((pre @ xs) @ [x]) (length (pre @ xs)), length (pre @ xs))"
    by (rule scan_up_doc_end[OF x])
  also have "block_start ((pre @ xs) @ [x]) (length (pre @ xs)) = block_start (pre @ xs) (length (pre @ xs))"
    by (rule block_start_append) simp
  also have "\<dots> = length pre"
    using block_start_run[OF xs pre] by simp
  finally show ?thesis by (simp add: r)
qed

text \<open>
  Claim C8. Above the index \<open>idx\<close> lie lines that the locator skips, above them a non-empty
  run of comment lines, above the run a line that is not a comment line (a blank line, say), and
  above that anything, an earlier run of comment lines included. Then
  \<open>find_preceding_xml_block\<close> returns exactly the span of the lower run: the runs are never
  merged across the separating line.
\<close>

theorem lower_run_only:
  assumes "list_all is_doc block" and "block \<noteq> []" and "list_all is_skip skips"
    and "\<not> is_doc sep"
    and "start = length (before @ earlier @ [sep])"
    and "idx = start + length block + length skips"
  shows "find_preceding_xml_block (before @ earlier @ [sep] @ block @ skips @ rest) idx =
         Some (start, start + length block - 1)"
proof -
  let ?pre = "before @ earlier @ [sep]"
  have idx: "idx = length (?pre @ block @ skips)" using assms(5,6) by simp
  have "find_preceding_xml_block (before @ earlier @ [sep] @ block @ skips @ rest) idx =
        scan_up ((?pre @ block @ skips) @ rest) (length (?pre @ block @ skips))"
    unfolding find_preceding_xml_block_def idx by simp
  also have "\<dots> = scan_up (?pre @ block @ skips) (length (?pre @ block @ skips))"
    by (rule scan_up_append) simp
  also have "\<dots> = Some (length ?pre, length ?pre + length block - 1)"
    by (rule scan_up_run[OF assms(1,2) _ assms(3)]) (use assms(4) in simp)
  finally show ?thesis unfolding assms(5) .
qed

theorem lower_run_only_witness:
  "find_preceding_xml_block
     [asc ''/// old'' @ [10], [10], asc ''/// <summary>'' @ [10], asc ''/// text'' @ [10],
      asc ''[Obsolete]'' @ [10], asc ''public void F()'' @ [10]] 5 = Some (2, 3)"
proof -
  have d: "list_all is_doc [asc ''/// <summary>'' @ [10], asc ''/// text'' @ [10]]"
    by (simp add: is_doc_def str_simps startswith_def asc_def is_space_def)
  have k: "list_all is_skip [asc ''[Obsolete]'' @ [10]]"
    by (simp add: is_doc_def is_skip_def str_simps startswith_def asc_def is_space_def)
  have b: "\<not> is_doc [10]"
    by (simp add: is_doc_def str_simps startswith_def asc_def is_space_def)
  show ?thesis
    using lower_run_only[OF d _ k b, of 2 "[asc ''/// old'' @ [10]]" "[]" 5
        "[asc ''public void F()'' @ [10]]"]
    by (simp del: scan_up.simps)
qed

section \<open>The loop seen from the processed lines\<close>

lemma loop_body_view:
  "loop_body U path t (lines, i, ct, ch) =
     (case decl_block U path t (lines ! i) ct of
        None \<Rightarrow> (lines, i + 1, next_type U (lines ! i) ct, ch)
      | Some b \<Rightarrow>
          (case find_preceding_xml_block lines i of
             None \<Rightarrow> (take i lines @ b @ drop i lines, i + length b + 1,
                        next_type U (lines ! i) ct, True)
           | Some (s, e) \<Rightarrow>
               if wants_replace U path (lines ! i) (block_text_of lines s e)
               then (fst (splice_replace lines i s e b), snd (splice_replace lines i s e b) + 1,
                     next_type U (lines ! i) ct, True)
               else (lines, i + 1, next_type U (lines ! i) ct, ch)))"
  by (auto simp: loop_body_def on_type_def on_method_def on_property_def decl_block_def
        wants_replace_def next_type_def splice_insert_def Let_def
      split: option.splits prod.splits)

lemma block_text_of_append:
  "e < length pre \<Longrightarrow> block_text_of (pre @ post) s e = block_text_of pre s e"
  by (simp add: block_text_of_def)

lemma splice_replace_prefix:
  assumes "s \<le> e" and "e < length pre"
  shows "splice_replace (pre @ l # post) (length pre) s e b =
           ((take s pre @ drop (e + 1) pre @ b) @ l # post, length (take s pre @ drop (e + 1) pre @ b))"
proof -
  define A where "A = take s pre @ drop (e + 1) pre"
  have k: "length pre - (e - s + 1) = length A"
    using assms by (simp add: A_def)
  have l1: "take s (pre @ l # post) @ drop (e + 1) (pre @ l # post) = A @ l # post"
    using assms by (simp add: A_def)
  have "splice_replace (pre @ l # post) (length pre) s e b = ((A @ b) @ l # post, length (A @ b))"
    unfolding splice_replace_def Let_def l1 k by simp
  then show ?thesis by (simp add: A_def)
qed

lemma loop_body_step:
  "loop_body U path t (pre @ l # post, length pre, ct, ch) =
     (step U path t pre l ct @ l # post, length (step U path t pre l ct) + 1,
      next_type U l ct, ch \<or> spliced U path t pre l ct)"
proof -
  have sc: "find_preceding_xml_block (pre @ l # post) (length pre) = scan_up pre (length pre)"
    unfolding find_preceding_xml_block_def by (rule scan_up_append) simp
  show ?thesis
  proof (cases "decl_block U path t l ct")
    case None
    then show ?thesis by (simp add: loop_body_view step_def spliced_def)
  next
    case (Some b)
    show ?thesis
    proof (cases "scan_up pre (length pre)")
      case None
      then show ?thesis using Some sc by (simp add: loop_body_view step_def spliced_def)
    next
      case (Some se)
      obtain s e where se: "se = (s, e)" by (cases se)
      have b: "s \<le> e" "e < length pre" using scan_up_bounds[of pre "length pre" s e] Some se by simp_all
      show ?thesis
        using \<open>decl_block U path t l ct = Some b\<close> Some se sc b
        by (simp add: loop_body_view step_def spliced_def block_text_of_append
              splice_replace_prefix del: scan_up.simps)
    qed
  qed
qed

lemma process_loop_run:
  "fst (process_loop U path t (pre @ rest, length pre, ct, ch)) = run U path t pre rest ct"
proof (induction rest arbitrary: pre ct ch)
  case Nil
  show ?case by (simp add: process_loop.simps)
next
  case (Cons l rest)
  have "process_loop U path t (pre @ l # rest, length pre, ct, ch) =
        process_loop U path t (loop_body U path t (pre @ l # rest, length pre, ct, ch))"
    by (subst process_loop.simps) simp
  also have "\<dots> = process_loop U path t
      ((step U path t pre l ct @ [l]) @ rest, length (step U path t pre l ct @ [l]),
       next_type U l ct, ch \<or> spliced U path t pre l ct)"
    by (simp add: loop_body_step)
  finally show ?case
    using Cons.IH[of "step U path t pre l ct @ [l]" "next_type U l ct"
        "ch \<or> spliced U path t pre l ct"]
    by simp
qed

section \<open>The cursor\<close>

text \<open>
  Claim C9. After a pass of the loop at line \<open>i\<close>, whether it inserted a block, replaced one
  or changed nothing, the declaration line stands directly before the new cursor, the lines
  from the new cursor on are exactly the lines that followed the declaration, and the number
  of lines still to scan has gone down by one. So scanning resumes at the line immediately
  after the declaration: no line is processed twice and none is skipped, whatever the net
  change in the line count.
\<close>

theorem cursor_after_declaration:
  assumes "i < length lines"
    and "loop_body U path t (lines, i, ct, ch) = (lines', i', ct', ch')"
  shows "0 < i' \<and> i' \<le> length lines' \<and> lines' ! (i' - 1) = lines ! i
         \<and> drop i' lines' = drop (Suc i) lines
         \<and> length lines' - i' = length lines - Suc i"
proof -
  let ?pre = "take i lines" and ?post = "drop (Suc i) lines"
  have ls: "lines = ?pre @ lines ! i # ?post" using assms(1) by (rule id_take_nth_drop)
  have len: "length ?pre = i" using assms(1) by simp
  have "loop_body U path t (?pre @ lines ! i # ?post, length ?pre, ct, ch) = (lines', i', ct', ch')"
    using assms(2) ls len by simp
  then have l': "lines' = step U path t ?pre (lines ! i) ct @ lines ! i # ?post"
    and i': "i' = length (step U path t ?pre (lines ! i) ct) + 1"
    unfolding loop_body_step by simp_all
  show ?thesis unfolding l' i' using assms(1) by (simp add: nth_append)
qed

theorem cursor_after_declaration_witness:
  "\<forall>U. fst (snd (loop_body U [] [] ([asc ''public int GetUserCount()'' @ [10], [10]], 0, None,
           False))) = 5
     \<and> drop 5 (fst (loop_body U [] [] ([asc ''public int GetUserCount()'' @ [10], [10]], 0, None,
           False))) = [[10]]"
proof
  fix U
  let ?st = "([asc ''public int GetUserCount()'' @ [10], [10]], 0, None, False)"
  have r: "loop_body U [] [] ?st =
     (take 0 [asc ''public int GetUserCount()'' @ [10], [10]] @
      [asc ''/// <summary>'' @ [10],
       asc ''/// User Count'' @ K_gets @ [10],
       asc ''/// </summary>'' @ [10],
       asc ''/// <returns>'' @ K_returns_result @ asc ''</returns>'' @ [10]]
        @ drop 0 [asc ''public int GetUserCount()'' @ [10], [10]],
      0 + 5, None, True)"
    by (rule get_user_count_step[where e = "[10]"]) (simp_all add: find_preceding_xml_block_def)
  show "fst (snd (loop_body U [] [] ?st)) = 5 \<and> drop 5 (fst (loop_body U [] [] ?st)) = [[10]]"
    using cursor_after_declaration[OF _ r] by (simp add: r)
qed

end
